theory Spec2Isabelle
  imports Complex_Main
begin

chapter \<open>Theru Fleet admin dashboard: model of the front-end logic\<close>

text \<open>
  The dashboard is a React front end. The parts modelled here are its pure computations
  (revenue, per-client aggregation, CSV export) and its small event handlers
  (campaign status buttons, ad file selection, route protection, role derivation).
  React state is a record that a handler takes and returns; toasts and HTTP requests are
  appended to logs kept in that record; a JavaScript exception is a \<open>None\<close> result of the
  operation that throws.
\<close>

section \<open>Definitions\<close>

subsection \<open>JavaScript numbers: non-negative binary64 values\<close>

text \<open>
  JavaScript numbers are IEEE 754 binary64. \<open>Dyadic k e\<close> stands for the finite value
  \<open>k / 2 ^ e\<close>; an impression count \<open>n\<close> is \<open>Dyadic n 0\<close>. A product is rounded to a
  53-bit significand, ties to even, which is what \<open>round_binary64\<close> does to the exact
  integer product of the two significands (results stay in the normal range: no
  overflow, no subnormals). The sum of two counts is rounded the same way; it is exact
  while it stays below \<open>2 ^ 53\<close>.
\<close>

fun bit_length :: "nat \<Rightarrow> nat" where
  "bit_length n = (if n = 0 then 0 else Suc (bit_length (n div 2)))"

declare bit_length.simps [simp del]

definition round_half_even :: "nat \<Rightarrow> nat \<Rightarrow> nat" where
  "round_half_even s m =
     (let q = m div 2 ^ s; r = m mod 2 ^ s
      in (if 2 * r > 2 ^ s \<or> (2 * r = 2 ^ s \<and> odd q) then q + 1 else q) * 2 ^ s)"

definition round_significand :: "nat \<Rightarrow> nat \<Rightarrow> nat" where
  "round_significand p m = round_half_even (bit_length m - p) m"

definition round_binary64 :: "nat \<Rightarrow> nat" where
  "round_binary64 m = round_significand 53 m"

datatype number = NaN | Dyadic nat nat

text \<open>\<open>a * b\<close> on numbers; \<open>NaN\<close> is contagious.\<close>

fun js_times :: "number \<Rightarrow> number \<Rightarrow> number" where
  "js_times (Dyadic k1 e1) (Dyadic k2 e2) = Dyadic (round_binary64 (k1 * k2)) (e1 + e2)"
| "js_times _ _ = NaN"

text \<open>\<open>a + b\<close> on two counts: the exact sum, rounded.\<close>

definition js_plus_count :: "nat \<Rightarrow> nat \<Rightarrow> nat" where
  "js_plus_count a b = round_binary64 (a + b)"

text \<open>\<open>a <= b\<close> on numbers: false when either side is \<open>NaN\<close>.\<close>

fun js_le :: "number \<Rightarrow> number \<Rightarrow> bool" where
  "js_le (Dyadic k1 e1) (Dyadic k2 e2) = (k1 * 2 ^ e2 \<le> k2 * 2 ^ e1)"
| "js_le _ _ = False"

text \<open>The exact rational a finite number denotes.\<close>

fun rat_of_number :: "number \<Rightarrow> rat" where
  "rat_of_number (Dyadic k e) = of_nat k / 2 ^ e"
| "rat_of_number NaN = 0"

text \<open>
  A numeric field of a JSON response: \<open>None\<close> when the field is absent (\<open>undefined\<close>),
  \<open>Some n\<close> for the count \<open>n\<close>. \<open>to_number\<close> is the conversion the operator \<open>*\<close> applies
  to its operand; \<open>or_zero\<close> is \<open>x || 0\<close>.
\<close>

fun to_number :: "nat option \<Rightarrow> number" where
  "to_number None = NaN"
| "to_number (Some n) = Dyadic n 0"

fun or_zero :: "nat option \<Rightarrow> nat" where
  "or_zero None = 0"
| "or_zero (Some n) = (if n = 0 then 0 else n)"

subsection \<open>Revenue on the dashboard, analytics and clients pages\<close>

text \<open>
  \<open>GET /analytics/overview\<close>. Each page declares its own
  \<open>const RATE_PER_IMPRESSION = 0.10\<close>; the literal denotes the binary64 value
  \<open>3602879701896397 / 2 ^ 55\<close>.
\<close>

record overview =
  total_devices :: "nat option"
  online_devices :: "nat option"
  offline_devices :: "nat option"
  total_campaigns :: "nat option"
  total_impressions :: "nat option"
  today_impressions :: "nat option"

definition literal_0_10 :: number where
  "literal_0_10 = Dyadic 3602879701896397 55"

text \<open>DashboardPage.js, lines 45-48.\<close>

definition Dashboard_RATE_PER_IMPRESSION :: number where
  "Dashboard_RATE_PER_IMPRESSION = literal_0_10"

definition Dashboard_totalRevenue :: "overview \<Rightarrow> number" where
  "Dashboard_totalRevenue stats =
     js_times (to_number (total_impressions stats)) Dashboard_RATE_PER_IMPRESSION"

definition Dashboard_todayRevenue :: "overview \<Rightarrow> number" where
  "Dashboard_todayRevenue stats =
     js_times (to_number (today_impressions stats)) Dashboard_RATE_PER_IMPRESSION"

text \<open>AnalyticsPage (unnamed/part_002), lines 12 and 136-138.\<close>

definition Analytics_RATE_PER_IMPRESSION :: number where
  "Analytics_RATE_PER_IMPRESSION = literal_0_10"

definition Analytics_totalRevenue :: "overview \<Rightarrow> number" where
  "Analytics_totalRevenue ov =
     js_times (Dyadic (or_zero (total_impressions ov)) 0) Analytics_RATE_PER_IMPRESSION"

definition Analytics_todayRevenue :: "overview \<Rightarrow> number" where
  "Analytics_todayRevenue ov =
     js_times (Dyadic (or_zero (today_impressions ov)) 0) Analytics_RATE_PER_IMPRESSION"

text \<open>
  ClientsPage (unnamed/part_001). A row of \<open>GET /analytics/campaigns\<close> carries the owning
  client and the campaign's impression total. \<open>loadData\<close> (lines 37-47) folds the rows into
  \<open>statsMap\<close>, which starts as the object literal \<open>{}\<close> and is keyed by client id.
\<close>

record campaign_stat =
  campaign_id :: string
  client_id :: string
  stat_total_impressions :: "nat option"
  unique_devices :: "nat option"

record client_stats =
  impressions :: nat
  campaigns :: nat

text \<open>
  \<open>statsMap\<close> is modelled by its own properties. A read \<open>statsMap[k]\<close> also sees what
  \<open>{}\<close> inherits from \<open>Object.prototype\<close>: for these names the read yields a function
  or the prototype object itself, which is truthy and is not a stats object.
\<close>

definition Object_prototype_properties :: "string list" where
  "Object_prototype_properties =
     [''constructor'', ''__defineGetter__'', ''__defineSetter__'', ''hasOwnProperty'',
      ''__lookupGetter__'', ''__lookupSetter__'', ''isPrototypeOf'', ''propertyIsEnumerable'',
      ''toString'', ''valueOf'', ''__proto__'', ''toLocaleString'']"

datatype property = Own client_stats | Inherited | Missing

definition statsMap_get :: "(string \<rightharpoonup> client_stats) \<Rightarrow> string \<Rightarrow> property" where
  "statsMap_get statsMap k =
     (case statsMap k of
        Some st \<Rightarrow> Own st
      | None \<Rightarrow> if k \<in> set Object_prototype_properties then Inherited else Missing)"

text \<open>
  The body of the \<open>forEach\<close> (lines 40-45). When \<open>statsMap[clientId]\<close> is an inherited
  value, no entry is created and the two \<open>+=\<close> write \<open>NaN\<close> into properties of that
  inherited value, not into \<open>statsMap\<close>.
\<close>

definition statsMap_add :: "(string \<rightharpoonup> client_stats) \<Rightarrow> campaign_stat \<Rightarrow> (string \<rightharpoonup> client_stats)" where
  "statsMap_add statsMap s =
     (let clientId = client_id s;
          statsMap1 = (case statsMap_get statsMap clientId of
                         Missing \<Rightarrow> statsMap(clientId \<mapsto> \<lparr>impressions = 0, campaigns = 0\<rparr>)
                       | _ \<Rightarrow> statsMap)
      in (case statsMap_get statsMap1 clientId of
            Own st \<Rightarrow>
              statsMap1(clientId \<mapsto>
                \<lparr>impressions = js_plus_count (impressions st) (or_zero (stat_total_impressions s)),
                 campaigns = js_plus_count (campaigns st) 1\<rparr>)
          | _ \<Rightarrow> statsMap1))"

definition build_statsMap :: "campaign_stat list \<Rightarrow> (string \<rightharpoonup> client_stats)" where
  "build_statsMap rows = foldl statsMap_add Map.empty rows"

text \<open>
  \<open>(campaignStats[clientId] || {}).impressions || 0\<close>. The \<open>impressions\<close> of an
  inherited value is \<open>undefined\<close>, or the \<open>NaN\<close> written by \<open>loadData\<close>: falsy either
  way.
\<close>

definition client_impressions :: "(string \<rightharpoonup> client_stats) \<Rightarrow> string \<Rightarrow> nat" where
  "client_impressions campaignStats clientId =
     (case statsMap_get campaignStats clientId of
        Own st \<Rightarrow> or_zero (Some (impressions st))
      | Inherited \<Rightarrow> 0
      | Missing \<Rightarrow> or_zero None)"

text \<open>
  The impression total of a stat row as the specification means it: the row's
  \<open>total_impressions\<close>, an absent one counting as zero.
\<close>

definition row_total :: "campaign_stat \<Rightarrow> nat" where
  "row_total s = (case stat_total_impressions s of None \<Rightarrow> 0 | Some n \<Rightarrow> n)"

text \<open>
  \<open>per_client_stats(client).total_impressions\<close> as the specification words it: the sum
  of the totals over the rows of the campaigns that the client owns.
\<close>

definition spec_client_total :: "campaign_stat list \<Rightarrow> string \<Rightarrow> nat" where
  "spec_client_total rows c = sum_list (map row_total (filter (\<lambda>s. client_id s = c) rows))"

definition Clients_RATE_PER_IMPRESSION :: number where
  "Clients_RATE_PER_IMPRESSION = literal_0_10"

definition getClientRevenue :: "(string \<rightharpoonup> client_stats) \<Rightarrow> string \<Rightarrow> number" where
  "getClientRevenue campaignStats clientId =
     js_times (Dyadic (client_impressions campaignStats clientId) 0) Clients_RATE_PER_IMPRESSION"

subsection \<open>HTTP requests issued through the API layer (lib/api.js)\<close>

text \<open>
  A handler's network calls are logged as values: the method, the path under
  \<open>/api\<close>, the query parameters and, for a multipart upload, the file.
\<close>

record js_file =
  file_name :: string
  file_type :: string
  file_size :: nat

datatype param = PString string | PNumber nat

record http_request =
  http_method :: string
  http_path :: string
  http_params :: "(string \<times> param) list"
  http_upload :: "js_file option"

definition campaignAPI_list :: http_request where
  "campaignAPI_list =
     \<lparr>http_method = ''GET'', http_path = ''/campaigns'', http_params = [], http_upload = None\<rparr>"

definition clientAPI_list :: http_request where
  "clientAPI_list =
     \<lparr>http_method = ''GET'', http_path = ''/clients'', http_params = [], http_upload = None\<rparr>"

definition deviceAPI_list :: http_request where
  "deviceAPI_list =
     \<lparr>http_method = ''GET'', http_path = ''/devices'', http_params = [], http_upload = None\<rparr>"

definition analyticsAPI_campaigns :: http_request where
  "analyticsAPI_campaigns =
     \<lparr>http_method = ''GET'', http_path = ''/analytics/campaigns'', http_params = [],
      http_upload = None\<rparr>"

definition campaignAPI_updateStatus :: "string \<Rightarrow> string \<Rightarrow> http_request" where
  "campaignAPI_updateStatus ident new_status =
     \<lparr>http_method = ''PUT'', http_path = ''/campaigns/'' @ ident @ ''/status'',
      http_params = [(''new_status'', PString new_status)], http_upload = None\<rparr>"

definition campaignAPI_getAds :: "string \<Rightarrow> http_request" where
  "campaignAPI_getAds campaignId =
     \<lparr>http_method = ''GET'', http_path = ''/campaigns/'' @ campaignId @ ''/ads'',
      http_params = [], http_upload = None\<rparr>"

definition campaignAPI_uploadAd :: "string \<Rightarrow> js_file \<Rightarrow> nat \<Rightarrow> http_request" where
  "campaignAPI_uploadAd campaignId f dur =
     \<lparr>http_method = ''POST'', http_path = ''/campaigns/'' @ campaignId @ ''/ads'',
      http_params = [(''duration_seconds'', PNumber dur)], http_upload = Some f\<rparr>"

definition adminAPI_markOfflineDevices :: http_request where
  "adminAPI_markOfflineDevices =
     \<lparr>http_method = ''POST'', http_path = ''/admin/mark-offline'', http_params = [],
      http_upload = None\<rparr>"

subsection \<open>Campaigns page: status buttons and ad upload (CampaignsPage.js)\<close>

text \<open>\<open>String.prototype.toLowerCase\<close> on ASCII text (status names are ASCII).\<close>

definition toLowerCase_char :: "char \<Rightarrow> char" where
  "toLowerCase_char c =
     (case map_of (zip ''ABCDEFGHIJKLMNOPQRSTUVWXYZ'' ''abcdefghijklmnopqrstuvwxyz'') c of
        None \<Rightarrow> c
      | Some d \<Rightarrow> d)"

definition toLowerCase :: "string \<Rightarrow> string" where
  "toLowerCase s = map toLowerCase_char s"

text \<open>\<open>s.startsWith(p)\<close>\<close>

definition startsWith :: "string \<Rightarrow> string \<Rightarrow> bool" where
  "startsWith s p = (take (length p) s = p)"

record campaign =
  campaign_ident :: string
  campaign_name :: string
  campaign_status :: "string option"

record ad_form =
  ad_file :: "js_file option"
  duration :: nat

datatype toast = Toast_success string | Toast_error string | Toast_info string

record campaigns_page =
  adFormData :: ad_form
  selectedCampaign :: "campaign option"
  isUploading :: bool
  uploadProgress :: nat
  toasts :: "toast list"
  requests :: "http_request list"

text \<open>\<open>loadData\<close> (lines 44-68): the four list requests of \<open>Promise.all\<close>.\<close>

definition loadData_requests :: "http_request list" where
  "loadData_requests =
     [campaignAPI_list, clientAPI_list, deviceAPI_list, analyticsAPI_campaigns]"

text \<open>
  \<open>handleStatusChange\<close> (lines 84-92). \<open>api_ok\<close> tells whether the awaited request
  succeeds; a failure lands in the \<open>catch\<close> branch.
\<close>

definition handleStatusChange :: "bool \<Rightarrow> campaigns_page \<Rightarrow> string \<Rightarrow> string \<Rightarrow> campaigns_page" where
  "handleStatusChange api_ok st campaignId newStatus =
     (let st1 = st\<lparr>requests := requests st @ [campaignAPI_updateStatus campaignId newStatus]\<rparr>
      in if api_ok
         then st1\<lparr>toasts := toasts st1 @ [Toast_success (''Campaign '' @ toLowerCase newStatus @ ''!'')],
                  requests := requests st1 @ loadData_requests\<rparr>
         else st1\<lparr>toasts := toasts st1 @ [Toast_error ''Failed to update status'']\<rparr>)"

text \<open>
  The action button of a campaign card (lines 339-358): the status its \<open>onClick\<close> passes
  to \<open>handleStatusChange\<close>. The test is \<open>campaign.status?.toLowerCase() === 'active'\<close>.
\<close>

definition status_button_request :: "campaign \<Rightarrow> string" where
  "status_button_request c =
     (if map_option toLowerCase (campaign_status c) = Some ''active''
      then ''PAUSED'' else ''ACTIVE'')"

definition click_status_button :: "bool \<Rightarrow> campaigns_page \<Rightarrow> campaign \<Rightarrow> campaigns_page" where
  "click_status_button api_ok st c =
     handleStatusChange api_ok st (campaign_ident c) (status_button_request c)"

text \<open>
  The lifecycle as the specification words it: \<open>activate\<close> takes SCHEDULED or PAUSED to
  ACTIVE, \<open>pause\<close> takes ACTIVE to PAUSED, and there is no other transition.
\<close>

definition spec_lifecycle_transition :: "string \<Rightarrow> string \<Rightarrow> bool" where
  "spec_lifecycle_transition from_status to_status =
     ((from_status = ''SCHEDULED'' \<or> from_status = ''PAUSED'') \<and> to_status = ''ACTIVE''
      \<or> from_status = ''ACTIVE'' \<and> to_status = ''PAUSED'')"

text \<open>\<open>handleFileSelect\<close> (lines 110-123); \<open>files\<close> is \<open>e.target.files\<close>.\<close>

definition handleFileSelect :: "campaigns_page \<Rightarrow> js_file list \<Rightarrow> campaigns_page" where
  "handleFileSelect st files =
     (case files of
        [] \<Rightarrow> st
      | f # _ \<Rightarrow>
          if \<not> startsWith (file_type f) ''video/''
          then st\<lparr>toasts := toasts st @ [Toast_error ''Please select a video file'']\<rparr>
          else if file_size f > 100 * 1024 * 1024
          then st\<lparr>toasts := toasts st @ [Toast_error ''File size must be less than 100MB'']\<rparr>
          else st\<lparr>adFormData := (adFormData st)\<lparr>ad_file := Some f\<rparr>\<rparr>)"

text \<open>
  \<open>handleUploadAd\<close> (lines 125-157), to the state it leaves once the upload has settled
  (the progress timer only animates \<open>uploadProgress\<close> in between).
\<close>

definition handleUploadAd :: "bool \<Rightarrow> campaigns_page \<Rightarrow> campaigns_page" where
  "handleUploadAd api_ok st =
     (case (ad_file (adFormData st), selectedCampaign st) of
        (Some f, Some c) \<Rightarrow>
          (let st1 = st\<lparr>requests := requests st
                          @ [campaignAPI_uploadAd (campaign_ident c) f (duration (adFormData st))]\<rparr>;
               st2 = (if api_ok
                      then st1\<lparr>toasts := toasts st1 @ [Toast_success ''Video uploaded successfully!''],
                               adFormData := \<lparr>ad_file = None, duration = 30\<rparr>,
                               requests := requests st1
                                 @ [campaignAPI_getAds (campaign_ident c)] @ loadData_requests\<rparr>
                      else st1\<lparr>toasts := toasts st1 @ [Toast_error ''Failed to upload video'']\<rparr>)
           in st2\<lparr>isUploading := False, uploadProgress := 0\<rparr>)
      | _ \<Rightarrow> st\<lparr>toasts := toasts st @ [Toast_error ''Please select a video file'']\<rparr>)"

subsection \<open>Session, role and protected routes (AuthContext.js, ProtectedRoute, App.js)\<close>

text \<open>
  Values that \<open>JSON.parse\<close> returns, and \<open>undefined\<close>, which a property read adds.
  An object is the list of its own properties.
\<close>

datatype json =
    J_Undefined
  | J_Null
  | J_Bool bool
  | J_Num rat
  | J_Str string
  | J_Arr "json list"
  | J_Obj "(string \<times> json) list"

fun truthy :: "json \<Rightarrow> bool" where
  "truthy J_Undefined = False"
| "truthy J_Null = False"
| "truthy (J_Bool b) = b"
| "truthy (J_Num x) = (x \<noteq> 0)"
| "truthy (J_Str s) = (s \<noteq> [])"
| "truthy (J_Arr _) = True"
| "truthy (J_Obj _) = True"

text \<open>
  \<open>payload.user_role\<close>: reading a property of \<open>null\<close> or \<open>undefined\<close> throws a
  \<open>TypeError\<close> (\<open>None\<close>); a primitive or an array has no such property.
\<close>

fun get_property :: "json \<Rightarrow> string \<Rightarrow> json option" where
  "get_property J_Undefined k = None"
| "get_property J_Null k = None"
| "get_property (J_Obj kvs) k = Some (case map_of kvs k of None \<Rightarrow> J_Undefined | Some v \<Rightarrow> v)"
| "get_property _ k = Some J_Undefined"

text \<open>\<open>s.split(sep)\<close> for a one-character separator.\<close>

fun split_char :: "char \<Rightarrow> string \<Rightarrow> string list" where
  "split_char sep [] = [[]]"
| "split_char sep (c # cs) =
     (if c = sep then [] # split_char sep cs
      else (case split_char sep cs of
              [] \<Rightarrow> [[c]]
            | w # ws \<Rightarrow> (c # w) # ws))"

text \<open>
  \<open>session.access_token.split('.')[1]\<close>, as the string \<open>atob\<close> receives: a missing
  second segment is \<open>undefined\<close>, which \<open>atob\<close> converts to the text \<open>undefined\<close>.
\<close>

definition payload_segment :: "string \<Rightarrow> string" where
  "payload_segment token =
     (case split_char (CHR ''.'') token of
        _ # seg # _ \<Rightarrow> seg
      | _ \<Rightarrow> ''undefined'')"

text \<open>
  The body of the \<open>try\<close> in \<open>AuthProvider\<close> (lines 18-23 and 36-41). The parameter
  \<open>decode\<close> is the browser's \<open>s \<mapsto> JSON.parse(atob(s))\<close>, with \<open>None\<close> when either
  throws.
\<close>

definition role_of_token :: "(string \<Rightarrow> json option) \<Rightarrow> string \<Rightarrow> json" where
  "role_of_token decode token =
     (case decode (payload_segment token) of
        None \<Rightarrow> J_Str ''customer''
      | Some payload \<Rightarrow>
          (case get_property payload ''user_role'' of
             None \<Rightarrow> J_Str ''customer''
           | Some r \<Rightarrow> if truthy r then r else J_Str ''customer''))"


record session =
  access_token :: "string option"
  session_user :: "string option"

record auth =
  session :: "session option"
  user :: "string option"
  loading :: bool
  userRole :: json

definition initial_auth :: auth where
  "initial_auth = \<lparr>session = None, user = None, loading = True, userRole = J_Null\<rparr>"

text \<open>\<open>session?.access_token\<close> as a condition: the session exists and its token is a non-empty string.\<close>

definition truthy_access_token :: "session option \<Rightarrow> string option" where
  "truthy_access_token s =
     (case s of
        None \<Rightarrow> None
      | Some se \<Rightarrow> (case access_token se of
                      None \<Rightarrow> None
                    | Some t \<Rightarrow> if t = [] then None else Some t))"

text \<open>\<open>session?.user ?? null\<close>\<close>

definition user_of_session :: "session option \<Rightarrow> string option" where
  "user_of_session s = (case s of None \<Rightarrow> None | Some se \<Rightarrow> session_user se)"

text \<open>The continuation of \<open>supabase.auth.getSession()\<close> (lines 13-27).\<close>

definition getSession_then :: "(string \<Rightarrow> json option) \<Rightarrow> auth \<Rightarrow> session option \<Rightarrow> auth" where
  "getSession_then decode st s =
     st\<lparr>session := s, user := user_of_session s,
        userRole := (case truthy_access_token s of
                       Some t \<Rightarrow> role_of_token decode t
                     | None \<Rightarrow> userRole st),
        loading := False\<rparr>"

text \<open>The listener given to \<open>supabase.auth.onAuthStateChange\<close> (lines 31-45).\<close>

definition onAuthStateChange :: "(string \<Rightarrow> json option) \<Rightarrow> auth \<Rightarrow> session option \<Rightarrow> auth" where
  "onAuthStateChange decode st s =
     st\<lparr>session := s, user := user_of_session s,
        userRole := (case truthy_access_token s of
                       Some t \<Rightarrow> role_of_token decode t
                     | None \<Rightarrow> J_Null)\<rparr>"

text \<open>
  The provider's life after mounting: the continuation of \<open>getSession\<close> and the listener
  run in some order, each with the session it is handed.
\<close>

datatype auth_event = GetSession_resolved "session option" | AuthStateChanged "session option"

fun auth_step :: "(string \<Rightarrow> json option) \<Rightarrow> auth \<Rightarrow> auth_event \<Rightarrow> auth" where
  "auth_step decode st (GetSession_resolved s) = getSession_then decode st s"
| "auth_step decode st (AuthStateChanged s) = onAuthStateChange decode st s"

fun event_session :: "auth_event \<Rightarrow> session option" where
  "event_session (GetSession_resolved s) = s"
| "event_session (AuthStateChanged s) = s"

text \<open>A session whose token decodes to an object with \<open>user_role = 'admin'\<close>.\<close>

definition carries_admin :: "(string \<Rightarrow> json option) \<Rightarrow> session option \<Rightarrow> bool" where
  "carries_admin decode s =
     (case truthy_access_token s of
        None \<Rightarrow> False
      | Some t \<Rightarrow>
          (case decode (payload_segment t) of
             Some (J_Obj kvs) \<Rightarrow> map_of kvs ''user_role'' = Some (J_Str ''admin'')
           | _ \<Rightarrow> False))"


text \<open>\<open>requiredRoles.includes(userRole)\<close> on an array of role names.\<close>

fun includes_role :: "string list \<Rightarrow> json \<Rightarrow> bool" where
  "includes_role requiredRoles (J_Str r) = (r \<in> set requiredRoles)"
| "includes_role requiredRoles _ = False"

datatype page =
    LoginPage | DashboardPage | DevicesPage | DriversPage
  | CampaignsPage | ClientsPage | AnalyticsPage | UnauthorizedPage

datatype element = Loading_screen | Navigate string | Render page

text \<open>\<open>ProtectedRoute\<close> (unnamed/part_000).\<close>

definition ProtectedRoute :: "auth \<Rightarrow> string list \<Rightarrow> page \<Rightarrow> element" where
  "ProtectedRoute a requiredRoles children =
     (if loading a then Loading_screen
      else if user a = None then Navigate ''/login''
      else if length requiredRoles > 0 \<and> \<not> includes_role requiredRoles (userRole a)
      then Navigate ''/unauthorized''
      else Render children)"

text \<open>The route table of \<open>App\<close> (App.js, lines 18-89); \<open>None\<close> when no route matches.\<close>

definition App_route :: "auth \<Rightarrow> string \<Rightarrow> element option" where
  "App_route a path =
     (if path = ''/login'' then Some (Render LoginPage)
      else if path = ''/'' then Some (Navigate ''/dashboard'')
      else if path = ''/dashboard'' then Some (ProtectedRoute a [] DashboardPage)
      else if path = ''/devices'' then Some (ProtectedRoute a [''admin''] DevicesPage)
      else if path = ''/drivers'' then Some (ProtectedRoute a [''admin''] DriversPage)
      else if path = ''/campaigns'' then Some (ProtectedRoute a [] CampaignsPage)
      else if path = ''/clients'' then Some (ProtectedRoute a [''admin''] ClientsPage)
      else if path = ''/analytics'' then Some (ProtectedRoute a [] AnalyticsPage)
      else if path = ''/unauthorized'' then Some (Render UnauthorizedPage)
      else None)"

subsection \<open>CSV export (lib/api.js, lines 107-124)\<close>

text \<open>
  A value read from a record with \<open>item[f.key]\<close>. \<open>JOther t\<close> is any value that is
  neither a string nor \<open>null\<close>/\<open>undefined\<close> (a number, a boolean, an object); the
  code only passes it on to \<open>join\<close>, so it is carried as the text \<open>t\<close> that \<open>join\<close>
  renders for it.
\<close>

datatype jsval = JUndefined | JNull | JString string | JOther string

record field_selector =
  key :: string
  label :: string

abbreviation comma :: char where "comma \<equiv> CHR '',''"
abbreviation dquote :: char where "dquote \<equiv> CHR 0x22"
abbreviation LF :: char where "LF \<equiv> CHR 0x0A"
abbreviation CR :: char where "CR \<equiv> CHR 0x0D"

text \<open>\<open>item[k]\<close>: an absent property reads as \<open>undefined\<close>.\<close>

definition item_get :: "(string \<rightharpoonup> jsval) \<Rightarrow> string \<Rightarrow> jsval" where
  "item_get item k = (case item k of None \<Rightarrow> JUndefined | Some v \<Rightarrow> v)"

text \<open>\<open>value.includes(c)\<close> for a one-character argument.\<close>

definition includes_char :: "string \<Rightarrow> char \<Rightarrow> bool" where
  "includes_char s c = (c \<in> set s)"

text \<open>\<open>value.replace(/"/g, '""')\<close>\<close>

fun replace_quotes :: "string \<Rightarrow> string" where
  "replace_quotes [] = []"
| "replace_quotes (c # cs) =
     (if c = dquote then dquote # dquote # replace_quotes cs else c # replace_quotes cs)"

text \<open>The callback of \<open>fields.map\<close> (lines 113-120), applied to the value read.\<close>

definition csv_cell :: "jsval \<Rightarrow> jsval" where
  "csv_cell v =
     (case v of
        JString s \<Rightarrow>
          if includes_char s comma \<or> includes_char s dquote
          then JString ([dquote] @ replace_quotes s @ [dquote])
          else JString s
      | JUndefined \<Rightarrow> JString []
      | JNull \<Rightarrow> JString []
      | JOther t \<Rightarrow> JOther t)"

text \<open>
  \<open>Array.prototype.join\<close>: an element that is \<open>null\<close> or \<open>undefined\<close> is rendered as
  the empty string, any other by its string conversion.
\<close>

fun join_text :: "jsval \<Rightarrow> string" where
  "join_text JUndefined = []"
| "join_text JNull = []"
| "join_text (JString s) = s"
| "join_text (JOther t) = t"

fun join :: "string \<Rightarrow> string list \<Rightarrow> string" where
  "join sep [] = []"
| "join sep [x] = x"
| "join sep (x # y # ys) = x @ sep @ join sep (y # ys)"

text \<open>\<open>data\<close> is \<open>None\<close> for \<open>null\<close>/\<open>undefined\<close>.\<close>

definition convertToCSV :: "(string \<rightharpoonup> jsval) list option \<Rightarrow> field_selector list \<Rightarrow> string" where
  "convertToCSV data csv_fields =
     (case data of
        None \<Rightarrow> []
      | Some d \<Rightarrow>
          if length d = 0 then []
          else
            (let headers = join [comma] (map label csv_fields);
                 rows = map (\<lambda>item.
                              join [comma]
                                (map (\<lambda>f. join_text (csv_cell (item_get item (key f)))) csv_fields))
                            d
             in join [LF] (headers # rows)))"

text \<open>
  The export as the specification words it: a header row of the labels, then one row per
  record; a string value containing a comma or a quote is wrapped in quotes with its
  quotes doubled; every other value is emitted as it is, \<open>null\<close> and \<open>undefined\<close> as the
  empty string.
\<close>

definition spec_cell :: "jsval \<Rightarrow> string" where
  "spec_cell v =
     (case v of
        JString s \<Rightarrow>
          if comma \<in> set s \<or> dquote \<in> set s
          then dquote # concat (map (\<lambda>c. if c = dquote then [dquote, dquote] else [c]) s) @ [dquote]
          else s
      | JUndefined \<Rightarrow> []
      | JNull \<Rightarrow> []
      | JOther t \<Rightarrow> t)"

definition spec_csv_lines :: "(string \<rightharpoonup> jsval) list \<Rightarrow> field_selector list \<Rightarrow> string list" where
  "spec_csv_lines d csv_fields =
     join [comma] (map label csv_fields)
     # map (\<lambda>item. join [comma] (map (\<lambda>f. spec_cell (item_get item (key f))) csv_fields)) d"

text \<open>
  Modelled from the spec: the standard CSV parser that the round-trip property reads the
  export back with; the repository has no parser. It follows RFC 4180: fields are
  separated by commas and records by line breaks (CRLF, and as parsers do, a lone LF or
  CR); a field that opens with a double quote runs to its closing quote and may contain
  commas, line breaks and doubled quotes, each pair standing for one quote. A line break
  ends a record; one at the very end of the text ends the last record and starts no
  further one (RFC 4180, 2.2), and the empty text has no records. An empty line before
  the end is read as a record of one empty field.
\<close>

datatype parser_mode = Unquoted | Quoted | QuoteSeen | AfterCR

record parser_state =
  mode :: parser_mode
  cur_field :: string
  cur_row :: "string list"
  done_rows :: "string list list"

definition parser_init :: parser_state where
  "parser_init = \<lparr>mode = Unquoted, cur_field = [], cur_row = [], done_rows = []\<rparr>"

definition end_field :: "parser_state \<Rightarrow> parser_state" where
  "end_field st =
     \<lparr>mode = Unquoted, cur_field = [], cur_row = cur_row st @ [cur_field st],
      done_rows = done_rows st\<rparr>"

definition end_record :: "parser_mode \<Rightarrow> parser_state \<Rightarrow> parser_state" where
  "end_record m st =
     \<lparr>mode = m, cur_field = [], cur_row = [],
      done_rows = done_rows st @ [cur_row st @ [cur_field st]]\<rparr>"

definition push_char :: "char \<Rightarrow> parser_mode \<Rightarrow> parser_state \<Rightarrow> parser_state" where
  "push_char c m st =
     \<lparr>mode = m, cur_field = cur_field st @ [c], cur_row = cur_row st,
      done_rows = done_rows st\<rparr>"

definition unquoted_step :: "parser_state \<Rightarrow> char \<Rightarrow> parser_state" where
  "unquoted_step st c =
     (if c = dquote \<and> cur_field st = [] then st\<lparr>mode := Quoted\<rparr>
      else if c = comma then end_field st
      else if c = LF then end_record Unquoted st
      else if c = CR then end_record AfterCR st
      else push_char c Unquoted st)"

definition parser_step :: "parser_state \<Rightarrow> char \<Rightarrow> parser_state" where
  "parser_step st c =
     (case mode st of
        Unquoted \<Rightarrow> unquoted_step st c
      | Quoted \<Rightarrow> if c = dquote then st\<lparr>mode := QuoteSeen\<rparr> else push_char c Quoted st
      | QuoteSeen \<Rightarrow>
          if c = dquote then push_char c Quoted st
          else if c = comma then end_field st
          else if c = LF then end_record Unquoted st
          else if c = CR then end_record AfterCR st
          else push_char c Unquoted st
      | AfterCR \<Rightarrow> if c = LF then st\<lparr>mode := Unquoted\<rparr> else unquoted_step st c)"

text \<open>Nothing has been read since the last line break, or since the start of the text.\<close>

definition at_record_start :: "parser_state \<Rightarrow> bool" where
  "at_record_start st =
     ((mode st = Unquoted \<or> mode st = AfterCR) \<and> cur_field st = [] \<and> cur_row st = [])"

definition parser_finish :: "parser_state \<Rightarrow> string list list" where
  "parser_finish st =
     (if at_record_start st then done_rows st
      else done_rows st @ [cur_row st @ [cur_field st]])"

definition parse_csv :: "string \<Rightarrow> string list list" where
  "parse_csv text = parser_finish (foldl parser_step parser_init text)"

text \<open>
  The values that the export can carry through: a string without a line break, \<open>null\<close>
  and \<open>undefined\<close> (read back as the empty string), and any other value whose rendering
  has no comma, quote or line break.
\<close>

definition plain_text :: "string \<Rightarrow> bool" where
  "plain_text s = (comma \<notin> set s \<and> dquote \<notin> set s \<and> LF \<notin> set s \<and> CR \<notin> set s)"

fun carried :: "jsval \<Rightarrow> bool" where
  "carried (JString s) = (LF \<notin> set s \<and> CR \<notin> set s)"
| "carried JUndefined = True"
| "carried JNull = True"
| "carried (JOther t) = plain_text t"

text \<open>
  Two notions for the proofs: the parser modes in which a field is complete, so that a
  comma, a line break and the end of the text all close it; and the text of one exported
  row, the cells of its values joined by commas.
\<close>

definition cell_end :: "parser_mode \<Rightarrow> bool" where
  "cell_end m = (m = Unquoted \<or> m = QuoteSeen)"

definition row_text :: "jsval list \<Rightarrow> string" where
  "row_text vs = join [comma] (map (\<lambda>v. join_text (csv_cell v)) vs)"

subsection \<open>Device status\<close>

datatype device_status = online | offline

text \<open>
  Modelled from the spec: the staleness sweep that classifies devices. It runs on the
  backend behind \<open>POST /admin/mark-offline\<close>; the front end only triggers it
  (\<open>adminAPI_markOfflineDevices\<close>) and reads the stored \<open>status\<close>. Section 4.1:
  given a threshold \<open>T\<close>, the status is online if \<open>now - last_seen <= T\<close> and offline
  otherwise, and a device that has never been seen (\<open>last_seen = null\<close>) is offline.
  Times are in seconds.
\<close>

definition sweep_status :: "int \<Rightarrow> int \<Rightarrow> int option \<Rightarrow> device_status" where
  "sweep_status T now last_seen =
     (case last_seen of
        None \<Rightarrow> offline
      | Some t \<Rightarrow> if now - t \<le> T then online else offline)"

section \<open>Properties\<close>

subsection \<open>Rounding\<close>

lemma bit_length_Suc: "0 < n \<Longrightarrow> bit_length n = Suc (bit_length (n div 2))"
  by (subst bit_length.simps) simp

lemma bit_length_0: "bit_length 0 = 0"
  by (simp add: bit_length.simps)

lemma bit_length_upper: "n < 2 ^ bit_length n"
proof (induction n rule: bit_length.induct)
  case (1 n)
  show ?case
  proof (cases "n = 0")
    case True
    then show ?thesis by simp
  next
    case False
    then have "n div 2 < 2 ^ bit_length (n div 2)" using 1 by simp
    then have "n < 2 * 2 ^ bit_length (n div 2)" by linarith
    then show ?thesis using False by (simp add: bit_length_Suc)
  qed
qed

lemma bit_length_lower: "0 < n \<Longrightarrow> 2 ^ (bit_length n - 1) \<le> n"
proof (induction n rule: bit_length.induct)
  case (1 n)
  show ?case
  proof (cases "n div 2 = 0")
    case True
    with 1(2) have "n = 1" by auto
    then show ?thesis by (simp add: bit_length_Suc bit_length_0)
  next
    case False
    then have IH: "2 ^ (bit_length (n div 2) - 1) \<le> n div 2" using 1 by simp
    have "bit_length (n div 2) = Suc (bit_length (n div 2) - 1)"
      using False by (simp add: bit_length_Suc)
    then have "(2::nat) ^ bit_length (n div 2) = 2 * 2 ^ (bit_length (n div 2) - 1)"
      by (metis power_Suc)
    then have "(2::nat) ^ bit_length (n div 2) \<le> n" using IH by linarith
    then show ?thesis using 1(2) by (simp add: bit_length_Suc)
  qed
qed

lemma bit_length_mono: "m \<le> n \<Longrightarrow> bit_length m \<le> bit_length n"
proof (induction n arbitrary: m rule: bit_length.induct)
  case (1 n)
  show ?case
  proof (cases "m = 0")
    case True
    then show ?thesis by (simp add: bit_length_0)
  next
    case False
    with 1(2) have n0: "n \<noteq> 0" by auto
    have "m div 2 \<le> n div 2" using 1(2) by (simp add: div_le_mono)
    with 1(1)[OF n0] have "bit_length (m div 2) \<le> bit_length (n div 2)" by simp
    then show ?thesis using False n0 by (simp add: bit_length_Suc)
  qed
qed

lemma round_half_even_lower: "(m div 2 ^ s) * 2 ^ s \<le> round_half_even s m"
  by (simp add: round_half_even_def Let_def)

lemma round_half_even_upper: "round_half_even s m \<le> (m div 2 ^ s + 1) * 2 ^ s"
  by (simp add: round_half_even_def Let_def)

text \<open>On one binade the rounding is monotone: the quotient decides, then the remainder.\<close>

lemma round_half_even_mono:
  assumes "m1 \<le> m2"
  shows "round_half_even s m1 \<le> round_half_even s m2"
proof (cases "m1 div 2 ^ s = m2 div 2 ^ s")
  case True
  have "m1 mod 2 ^ s \<le> m2 mod 2 ^ s"
    using assms True by (metis add_le_cancel_left mult_div_mod_eq)
  then show ?thesis using True by (auto simp: round_half_even_def Let_def)
next
  case False
  have "m1 div 2 ^ s \<le> m2 div 2 ^ s" using assms by (rule div_le_mono)
  with False have "m1 div 2 ^ s + 1 \<le> m2 div 2 ^ s" by simp
  then have "(m1 div 2 ^ s + 1) * 2 ^ s \<le> (m2 div 2 ^ s) * 2 ^ s"
    by (rule mult_le_mono1)
  with round_half_even_upper[of s m1] round_half_even_lower[of m2 s] show ?thesis
    by linarith
qed

text \<open>
  Across binades: the smaller argument rounds to at most the power of two that starts the
  next binade, and the larger one to at least the power of two that starts its own.
\<close>

lemma round_significand_mono:
  assumes m12: "m1 \<le> m2" and ppos: "0 < p"
  shows "round_significand p m1 \<le> round_significand p m2"
proof (cases "bit_length m1 - p = bit_length m2 - p")
  case True
  then show ?thesis using m12 by (simp add: round_significand_def round_half_even_mono)
next
  case False
  define s1 where "s1 = bit_length m1 - p"
  define s2 where "s2 = bit_length m2 - p"
  have le: "bit_length m1 \<le> bit_length m2" using m12 by (rule bit_length_mono)
  with False have lt: "s1 < s2" and b2: "bit_length m2 = s2 + p"
    by (auto simp: s1_def s2_def)
  have m2pos: "0 < m2" using b2 lt by (cases "m2 = 0") (auto simp: bit_length_0)
  have "m1 < 2 ^ bit_length m1" by (rule bit_length_upper)
  also have "(2::nat) ^ bit_length m1 \<le> 2 ^ (s1 + p)"
    by (rule power_increasing) (auto simp: s1_def)
  finally have "m1 < 2 ^ s1 * 2 ^ p" by (simp add: power_add)
  then have "m1 div 2 ^ s1 < 2 ^ p" by (simp add: less_mult_imp_div_less mult.commute)
  then have "m1 div 2 ^ s1 + 1 \<le> 2 ^ p" by simp
  then have "(m1 div 2 ^ s1 + 1) * 2 ^ s1 \<le> 2 ^ p * 2 ^ s1"
    by (rule mult_le_mono1)
  with round_half_even_upper[of s1 m1] have up: "round_significand p m1 \<le> 2 ^ p * 2 ^ s1"
    unfolding round_significand_def s1_def by linarith
  have "s1 + p \<le> s2 + p - 1" using lt by simp
  then have mid: "(2::nat) ^ p * 2 ^ s1 \<le> 2 ^ (s2 + p - 1)"
    unfolding power_add[symmetric] by (intro power_increasing) (auto simp: add.commute)
  have low: "2 ^ (s2 + p - 1) \<le> m2" using bit_length_lower[OF m2pos] b2 by simp
  have "s2 + p - 1 = (p + s2 - 1 - s2) + s2" using ppos by simp
  then have split: "(2::nat) ^ (s2 + p - 1) = 2 ^ (p + s2 - 1 - s2) * 2 ^ s2"
    by (metis power_add)
  then have "(2 ^ (p + s2 - 1 - s2) * 2 ^ s2) div 2 ^ s2 \<le> m2 div 2 ^ s2"
    using low by (metis div_le_mono)
  then have "(2::nat) ^ (p + s2 - 1 - s2) \<le> m2 div 2 ^ s2" by simp
  then have "2 ^ (p + s2 - 1 - s2) * 2 ^ s2 \<le> (m2 div 2 ^ s2) * 2 ^ s2"
    by (rule mult_le_mono1)
  with round_half_even_lower[of m2 s2] split
  have lo: "2 ^ (s2 + p - 1) \<le> round_significand p m2"
    unfolding round_significand_def s2_def by linarith
  from up mid lo show ?thesis by linarith
qed

lemma round_binary64_mono: "m1 \<le> m2 \<Longrightarrow> round_binary64 m1 \<le> round_binary64 m2"
  by (simp add: round_binary64_def round_significand_mono)

text \<open>The rounding error is at most half a unit in the last place, so at most \<open>m / 2 ^ 53\<close>.\<close>

lemma round_half_even_error:
  "2 * round_half_even s m \<le> 2 * m + 2 ^ s \<and> 2 * m \<le> 2 * round_half_even s m + 2 ^ s"
proof -
  define q where "q = m div 2 ^ s"
  define r where "r = m mod 2 ^ s"
  have m: "m = q * 2 ^ s + r" by (simp only: q_def r_def div_mult_mod_eq)
  have r: "r < 2 ^ s" by (simp add: r_def)
  have "round_half_even s m = (if 2 * r > 2 ^ s \<or> (2 * r = 2 ^ s \<and> odd q) then q + 1 else q) * 2 ^ s"
    by (simp add: round_half_even_def Let_def q_def r_def)
  then show ?thesis using m r by (auto simp: algebra_simps)
qed

lemma round_binary64_error:
  "2 ^ 53 * round_binary64 m \<le> 2 ^ 53 * m + m \<and> 2 ^ 53 * m \<le> 2 ^ 53 * round_binary64 m + m"
proof (cases "bit_length m \<le> 53")
  case True
  then have "round_binary64 m = m"
    by (simp add: round_binary64_def round_significand_def round_half_even_def)
  then show ?thesis by simp
next
  case False
  define s where "s = bit_length m - 53"
  have bl: "bit_length m = s + 53" and spos: "0 < s" using False by (auto simp: s_def)
  have mpos: "0 < m" using bl by (cases "m = 0") (auto simp: bit_length_0)
  have "2 ^ (s + 52) \<le> m" using bit_length_lower[OF mpos] bl by (simp add: add.commute)
  then have low: "2 ^ 52 * 2 ^ s \<le> m" by (simp add: power_add mult.commute)
  have err: "2 * round_half_even s m \<le> 2 * m + 2 ^ s" "2 * m \<le> 2 * round_half_even s m + 2 ^ s"
    using round_half_even_error[of s m] by auto
  have eq: "round_binary64 m = round_half_even s m"
    by (simp add: round_binary64_def round_significand_def s_def)
  have p: "(2::nat) ^ 53 = 2 * 2 ^ 52" by simp
  from err(1) have "2 ^ 52 * (2 * round_half_even s m) \<le> 2 ^ 52 * (2 * m + 2 ^ s)"
    by (rule mult_le_mono2)
  then have a: "2 ^ 53 * round_half_even s m \<le> 2 ^ 53 * m + 2 ^ 52 * 2 ^ s"
    unfolding p by (simp add: algebra_simps)
  from err(2) have "2 ^ 52 * (2 * m) \<le> 2 ^ 52 * (2 * round_half_even s m + 2 ^ s)"
    by (rule mult_le_mono2)
  then have b: "2 ^ 53 * m \<le> 2 ^ 53 * round_half_even s m + 2 ^ 52 * 2 ^ s"
    unfolding p by (simp add: algebra_simps)
  from a b low show ?thesis unfolding eq by linarith
qed

text \<open>Below \<open>2 ^ 53\<close> nothing is rounded.\<close>

lemma bit_length_le: "m < 2 ^ p \<Longrightarrow> bit_length m \<le> p"
proof (cases "m = 0")
  case True
  then show ?thesis by (simp add: bit_length_0)
next
  case False
  assume "m < 2 ^ p"
  moreover have "(2::nat) ^ (bit_length m - 1) \<le> m" using bit_length_lower[of m] False by simp
  ultimately have "(2::nat) ^ (bit_length m - 1) < 2 ^ p" by (rule le_less_trans[rotated])
  then have "bit_length m - 1 < p" by (simp add: power_strict_increasing_iff)
  then show ?thesis by simp
qed

lemma round_binary64_exact: "m < 2 ^ 53 \<Longrightarrow> round_binary64 m = m"
  using bit_length_le[of m 53]
  by (simp add: round_binary64_def round_significand_def round_half_even_def)

text \<open>The model reproduces the familiar \<open>3 * 0.1 = 0.30000000000000004\<close>.\<close>

lemma three_times_literal_0_10:
  "js_times (Dyadic 3 0) literal_0_10 = Dyadic (2 * 5404319552844596) 55"
  by (simp add: literal_0_10_def round_binary64_def round_significand_def
      round_half_even_def bit_length.simps Let_def)

subsection \<open>Revenue\<close>

lemma js_times_count_mono:
  "n1 \<le> n2 \<Longrightarrow> js_le (js_times (Dyadic n1 0) (Dyadic k e)) (js_times (Dyadic n2 0) (Dyadic k e))"
  by (simp add: round_binary64_mono)

text \<open>
  The literal \<open>0.10\<close> is the binary64 value nearest to one tenth, and a product with a
  count is the exact product up to one rounding: the revenue of \<open>n\<close> impressions is
  \<open>n / 10\<close> up to a relative error of \<open>2 ^ -52\<close>.
\<close>

lemma literal_0_10_value: "rat_of_number literal_0_10 - 1 / 10 = 1 / (5 * 2 ^ 55)"
  by (simp add: literal_0_10_def)

lemma js_times_count_rounding:
  "\<bar>rat_of_number (js_times (Dyadic n 0) (Dyadic k e)) - of_nat n * rat_of_number (Dyadic k e)\<bar> * 2 ^ 53
     \<le> of_nat n * rat_of_number (Dyadic k e)"
proof -
  define m where "m = n * k"
  have err: "2 ^ 53 * round_binary64 m \<le> 2 ^ 53 * m + m" "2 ^ 53 * m \<le> 2 ^ 53 * round_binary64 m + m"
    using round_binary64_error[of m] by auto
  have "(of_nat (2 ^ 53 * round_binary64 m) :: rat) \<le> of_nat (2 ^ 53 * m + m)"
    using err(1) by (rule of_nat_mono)
  then have a: "(2 ^ 53 * of_nat (round_binary64 m) :: rat) \<le> 2 ^ 53 * of_nat m + of_nat m"
    by simp
  have "(of_nat (2 ^ 53 * m) :: rat) \<le> of_nat (2 ^ 53 * round_binary64 m + m)"
    using err(2) by (rule of_nat_mono)
  then have b: "(2 ^ 53 * of_nat m :: rat) \<le> 2 ^ 53 * of_nat (round_binary64 m) + of_nat m"
    by simp
  from a b have "\<bar>(of_nat (round_binary64 m) :: rat) - of_nat m\<bar> * 2 ^ 53 \<le> of_nat m"
    by (simp add: abs_if)
  then have "\<bar>(of_nat (round_binary64 m) :: rat) - of_nat m\<bar> * 2 ^ 53 / 2 ^ e \<le> of_nat m / 2 ^ e"
    by (simp add: divide_right_mono)
  moreover have "\<bar>(of_nat (round_binary64 m) :: rat) - of_nat m\<bar> * 2 ^ 53 / 2 ^ e
       = \<bar>of_nat (round_binary64 m) / 2 ^ e - of_nat m / 2 ^ e\<bar> * 2 ^ 53"
    by (simp add: diff_divide_distrib[symmetric] abs_divide del: of_nat_mult)
  ultimately show ?thesis by (simp add: m_def)
qed


lemma revenue_close_to_one_tenth:
  "\<bar>rat_of_number (js_times (Dyadic n 0) literal_0_10) - of_nat n / 10\<bar> * 2 ^ 52 \<le> of_nat n / 10"
proof -
  define t :: rat where "t = of_nat n / 10"
  define x :: rat where "x = of_nat n * rat_of_number literal_0_10"
  define r :: rat where "r = rat_of_number (js_times (Dyadic n 0) literal_0_10)"
  have t0: "0 \<le> t" by (simp add: t_def)
  have "rat_of_number literal_0_10 = 1 / 10 + 1 / (5 * 2 ^ 55)"
    using literal_0_10_value by simp
  then have x: "x = t + t / 2 ^ 54"
    by (simp add: x_def t_def algebra_simps)
  have "\<bar>r - x\<bar> * 2 ^ 53 \<le> x"
    unfolding r_def x_def literal_0_10_def by (rule js_times_count_rounding)
  then have "\<bar>r - t\<bar> * 2 ^ 52 \<le> t"
    using t0 unfolding x by (simp add: abs_if split: if_splits)
  then show ?thesis by (simp add: r_def t_def)
qed

text \<open>
  C1. For an impression count \<open>n\<close>, the total revenue that the dashboard page and the
  analytics page compute for display is the JavaScript product
  \<open>n * RATE_PER_IMPRESSION\<close>, with \<open>RATE_PER_IMPRESSION\<close> the binary64 value of \<open>0.10\<close>
  (so it is \<open>n / 10\<close> up to the rounding of binary64); and the revenue is monotonic
  non-decreasing in the count.
\<close>

theorem revenue_is_count_times_rate_and_monotone:
  fixes stats :: overview
  shows
  "Dashboard_totalRevenue (stats\<lparr>total_impressions := Some n\<rparr>)
     = js_times (Dyadic n 0) Dashboard_RATE_PER_IMPRESSION
   \<and> Analytics_totalRevenue (stats\<lparr>total_impressions := Some n\<rparr>)
     = js_times (Dyadic n 0) Analytics_RATE_PER_IMPRESSION
   \<and> Dashboard_RATE_PER_IMPRESSION = Dyadic 3602879701896397 55
   \<and> Analytics_RATE_PER_IMPRESSION = Dyadic 3602879701896397 55
   \<and> \<bar>rat_of_number (Dashboard_totalRevenue (stats\<lparr>total_impressions := Some n\<rparr>))
        - of_nat n / 10\<bar> * 2 ^ 52 \<le> of_nat n / 10
   \<and> \<bar>rat_of_number (Analytics_totalRevenue (stats\<lparr>total_impressions := Some n\<rparr>))
        - of_nat n / 10\<bar> * 2 ^ 52 \<le> of_nat n / 10
   \<and> (a \<le> b \<longrightarrow>
        js_le (Dashboard_totalRevenue (stats\<lparr>total_impressions := Some a\<rparr>))
              (Dashboard_totalRevenue (stats\<lparr>total_impressions := Some b\<rparr>))
      \<and> js_le (Analytics_totalRevenue (stats\<lparr>total_impressions := Some a\<rparr>))
              (Analytics_totalRevenue (stats\<lparr>total_impressions := Some b\<rparr>)))"
proof -
  have mono: "js_le (js_times (Dyadic a 0) literal_0_10) (js_times (Dyadic b 0) literal_0_10)"
    if "a \<le> b"
    using that unfolding literal_0_10_def by (rule js_times_count_mono)
  show ?thesis
    using mono revenue_close_to_one_tenth[of n]
    by (simp add: Dashboard_totalRevenue_def Analytics_totalRevenue_def
        Dashboard_RATE_PER_IMPRESSION_def Analytics_RATE_PER_IMPRESSION_def)
      (simp add: literal_0_10_def)
qed

theorem revenue_is_count_times_rate_and_monotone_witness:
  "(3::nat) \<le> 4
   \<and> js_le
        (Dashboard_totalRevenue
           \<lparr>total_devices = Some 2, online_devices = Some 1, offline_devices = Some 1,
            total_campaigns = Some 1, total_impressions = Some 3, today_impressions = Some 0\<rparr>)
        (Dashboard_totalRevenue
           \<lparr>total_devices = Some 2, online_devices = Some 1, offline_devices = Some 1,
            total_campaigns = Some 1, total_impressions = Some 4, today_impressions = Some 0\<rparr>)
   \<and> Dashboard_totalRevenue
        \<lparr>total_devices = Some 2, online_devices = Some 1, offline_devices = Some 1,
         total_campaigns = Some 1, total_impressions = Some 3, today_impressions = Some 0\<rparr>
      = Dyadic 10808639105689192 55"
proof -
  have le: "js_le
        (Dashboard_totalRevenue
           \<lparr>total_devices = Some 2, online_devices = Some 1, offline_devices = Some 1,
            total_campaigns = Some 1, total_impressions = Some 3, today_impressions = Some 0\<rparr>)
        (Dashboard_totalRevenue
           \<lparr>total_devices = Some 2, online_devices = Some 1, offline_devices = Some 1,
            total_campaigns = Some 1, total_impressions = Some 4, today_impressions = Some 0\<rparr>)"
    using revenue_is_count_times_rate_and_monotone
      [where stats = "\<lparr>total_devices = Some 2, online_devices = Some 1, offline_devices = Some 1,
            total_campaigns = Some 1, total_impressions = Some 0, today_impressions = Some 0\<rparr>"
         and n = 3 and a = 3 and b = 4,
       THEN conjunct2, THEN conjunct2, THEN conjunct2, THEN conjunct2,
       THEN conjunct2, THEN conjunct2]
    by simp
  have v: "Dashboard_totalRevenue
        \<lparr>total_devices = Some 2, online_devices = Some 1, offline_devices = Some 1,
         total_campaigns = Some 1, total_impressions = Some 3, today_impressions = Some 0\<rparr>
      = Dyadic 10808639105689192 55"
    using three_times_literal_0_10
    by (simp add: Dashboard_totalRevenue_def Dashboard_RATE_PER_IMPRESSION_def)
  show ?thesis
    by (intro conjI) (simp, rule le, rule v)
qed

text \<open>
  C2. The three pages each declare the rate, with one and the same value, and their
  revenue computations agree as functions of the impression count: each maps the count
  \<open>n\<close> to \<open>n\<close> times the binary64 value of \<open>0.10\<close>.
\<close>

theorem revenue_paths_agree:
  fixes stats :: overview
  shows
  "Dashboard_totalRevenue (stats\<lparr>total_impressions := Some n\<rparr>)
     = js_times (Dyadic n 0) literal_0_10
   \<and> Analytics_totalRevenue (stats\<lparr>total_impressions := Some n\<rparr>)
     = js_times (Dyadic n 0) literal_0_10
   \<and> getClientRevenue (campaignStats(clientId \<mapsto> \<lparr>impressions = n, campaigns = k\<rparr>)) clientId
     = js_times (Dyadic n 0) literal_0_10
   \<and> Dashboard_todayRevenue (stats\<lparr>today_impressions := Some n\<rparr>)
     = Analytics_todayRevenue (stats\<lparr>today_impressions := Some n\<rparr>)
   \<and> Dashboard_RATE_PER_IMPRESSION = Analytics_RATE_PER_IMPRESSION
   \<and> Analytics_RATE_PER_IMPRESSION = Clients_RATE_PER_IMPRESSION"
  by (simp add: Dashboard_totalRevenue_def Analytics_totalRevenue_def getClientRevenue_def
      Dashboard_todayRevenue_def Analytics_todayRevenue_def client_impressions_def
      statsMap_get_def
      Dashboard_RATE_PER_IMPRESSION_def Analytics_RATE_PER_IMPRESSION_def
      Clients_RATE_PER_IMPRESSION_def)

text \<open>
  Where the two pages differ is off the counts: an absent field gives \<open>NaN\<close> on the
  dashboard and zero revenue on the analytics page.
\<close>

lemma revenue_of_absent_count:
  fixes stats :: overview
  shows
  "Dashboard_totalRevenue (stats\<lparr>total_impressions := None\<rparr>) = NaN
   \<and> Analytics_totalRevenue (stats\<lparr>total_impressions := None\<rparr>) = Dyadic 0 55"
  by (simp add: Dashboard_totalRevenue_def Analytics_totalRevenue_def
      Dashboard_RATE_PER_IMPRESSION_def Analytics_RATE_PER_IMPRESSION_def literal_0_10_def
      round_binary64_def round_significand_def round_half_even_def bit_length_0)

subsection \<open>Per-client aggregation\<close>

lemma client_impressions_statsMap_add:
  assumes "c \<notin> set Object_prototype_properties"
    and "client_impressions m c + (if client_id s = c then row_total s else 0) < 2 ^ 53"
  shows "client_impressions (statsMap_add m s) c =
           client_impressions m c + (if client_id s = c then row_total s else 0)"
proof (cases "client_id s = c")
  case True
  have "or_zero (stat_total_impressions s) = row_total s"
    by (cases "stat_total_impressions s") (simp_all add: row_total_def)
  then show ?thesis
    using assms True
    by (auto simp: client_impressions_def statsMap_add_def statsMap_get_def Let_def
        js_plus_count_def round_binary64_exact split: option.splits)
next
  case False
  then show ?thesis
    by (auto simp: client_impressions_def statsMap_add_def statsMap_get_def Let_def
        split: option.splits property.splits if_splits)
qed

lemma client_impressions_foldl:
  assumes "c \<notin> set Object_prototype_properties"
    and "client_impressions m c + sum_list (map row_total (filter (\<lambda>s. client_id s = c) rows))
           < 2 ^ 53"
  shows "client_impressions (foldl statsMap_add m rows) c =
           client_impressions m c
             + sum_list (map row_total (filter (\<lambda>s. client_id s = c) rows))"
  using assms(2)
proof (induction rows arbitrary: m)
  case Nil
  then show ?case by simp
next
  case (Cons s rows)
  have step: "client_impressions (statsMap_add m s) c =
           client_impressions m c + (if client_id s = c then row_total s else 0)"
    using Cons.prems by (intro client_impressions_statsMap_add assms(1)) (auto split: if_splits)
  show ?case
    using Cons.IH[of "statsMap_add m s"] Cons.prems step by (auto split: if_splits)
qed

text \<open>
  C7, as stated, fails on the code. A row whose \<open>client_id\<close> is \<open>constructor\<close> finds
  \<open>statsMap['constructor']\<close> already truthy (the inherited \<open>Object\<close>), so no entry is
  made for that client and the page shows 0 impressions where the rows sum to 3.
\<close>

theorem inherited_client_id_shows_zero:
  "client_impressions
     (build_statsMap
        [\<lparr>campaign_id = ''k1'', client_id = ''constructor'',
          stat_total_impressions = Some 3, unique_devices = Some 1\<rparr>])
     ''constructor'' = 0
   \<and> spec_client_total
        [\<lparr>campaign_id = ''k1'', client_id = ''constructor'',
          stat_total_impressions = Some 3, unique_devices = Some 1\<rparr>]
        ''constructor'' = 3"
  by (simp add: build_statsMap_def statsMap_add_def statsMap_get_def client_impressions_def
      Object_prototype_properties_def row_total_def spec_client_total_def Let_def)

text \<open>
  C7, amended. For every client whose id is not the name of a property that objects
  inherit from \<open>Object.prototype\<close>, and whose per-campaign rows sum to less than
  \<open>2 ^ 53\<close> impressions, the impression total the clients page shows is the sum of
  \<open>total_impressions\<close> over the rows whose \<open>client_id\<close> is that id (an absent total
  counts as zero), and the revenue shown is the binary64 product of that total and
  \<open>0.10\<close>, which is a tenth of the total up to a relative error of \<open>2 ^ -52\<close>.
\<close>

theorem client_total_is_sum_over_own_campaigns:
  assumes "c \<notin> set Object_prototype_properties"
    and "spec_client_total rows c < 2 ^ 53"
  shows "client_impressions (build_statsMap rows) c = spec_client_total rows c
         \<and> getClientRevenue (build_statsMap rows) c
           = Dyadic (round_binary64 (spec_client_total rows c * 3602879701896397)) 55
         \<and> \<bar>rat_of_number (getClientRevenue (build_statsMap rows) c)
              - of_nat (spec_client_total rows c) / 10\<bar> * 2 ^ 52
           \<le> of_nat (spec_client_total rows c) / 10"
proof -
  define total where "total = spec_client_total rows c"
  have empty: "client_impressions Map.empty c = 0"
    using assms(1) by (simp add: client_impressions_def statsMap_get_def)
  have shown: "client_impressions (build_statsMap rows) c = total"
    unfolding build_statsMap_def total_def spec_client_total_def
    using client_impressions_foldl[of c Map.empty rows] assms empty
    by (simp add: spec_client_total_def)
  have revenue: "getClientRevenue (build_statsMap rows) c = js_times (Dyadic total 0) literal_0_10"
    by (simp add: getClientRevenue_def shown Clients_RATE_PER_IMPRESSION_def)
  have product: "js_times (Dyadic total 0) literal_0_10
                 = Dyadic (round_binary64 (total * 3602879701896397)) 55"
    by (simp add: literal_0_10_def)
  have close: "\<bar>rat_of_number (getClientRevenue (build_statsMap rows) c) - of_nat total / 10\<bar>
                 * 2 ^ 52 \<le> of_nat total / 10"
    unfolding revenue by (rule revenue_close_to_one_tenth)
  from shown revenue product close show ?thesis
    unfolding total_def by simp
qed

theorem client_total_is_sum_over_own_campaigns_witness:
  "''acme'' \<notin> set Object_prototype_properties
   \<and> spec_client_total
        [\<lparr>campaign_id = ''k1'', client_id = ''acme'',
          stat_total_impressions = Some 3, unique_devices = Some 1\<rparr>,
         \<lparr>campaign_id = ''k2'', client_id = ''other'',
          stat_total_impressions = Some 5, unique_devices = Some 2\<rparr>,
         \<lparr>campaign_id = ''k3'', client_id = ''acme'',
          stat_total_impressions = None, unique_devices = None\<rparr>,
         \<lparr>campaign_id = ''k4'', client_id = ''acme'',
          stat_total_impressions = Some 4, unique_devices = Some 1\<rparr>]
        ''acme'' = 7
   \<and> client_impressions
        (build_statsMap
           [\<lparr>campaign_id = ''k1'', client_id = ''acme'',
             stat_total_impressions = Some 3, unique_devices = Some 1\<rparr>,
            \<lparr>campaign_id = ''k2'', client_id = ''other'',
             stat_total_impressions = Some 5, unique_devices = Some 2\<rparr>,
            \<lparr>campaign_id = ''k3'', client_id = ''acme'',
             stat_total_impressions = None, unique_devices = None\<rparr>,
            \<lparr>campaign_id = ''k4'', client_id = ''acme'',
             stat_total_impressions = Some 4, unique_devices = Some 1\<rparr>])
        ''acme'' = 7"
proof -
  have id_ok: "''acme'' \<notin> set Object_prototype_properties"
    by (simp add: Object_prototype_properties_def)
  have small: "spec_client_total
        [\<lparr>campaign_id = ''k1'', client_id = ''acme'',
          stat_total_impressions = Some 3, unique_devices = Some 1\<rparr>,
         \<lparr>campaign_id = ''k2'', client_id = ''other'',
          stat_total_impressions = Some 5, unique_devices = Some 2\<rparr>,
         \<lparr>campaign_id = ''k3'', client_id = ''acme'',
          stat_total_impressions = None, unique_devices = None\<rparr>,
         \<lparr>campaign_id = ''k4'', client_id = ''acme'',
          stat_total_impressions = Some 4, unique_devices = Some 1\<rparr>]
        ''acme'' = 7"
    by (simp add: spec_client_total_def row_total_def)
  have "client_impressions
        (build_statsMap
           [\<lparr>campaign_id = ''k1'', client_id = ''acme'',
             stat_total_impressions = Some 3, unique_devices = Some 1\<rparr>,
            \<lparr>campaign_id = ''k2'', client_id = ''other'',
             stat_total_impressions = Some 5, unique_devices = Some 2\<rparr>,
            \<lparr>campaign_id = ''k3'', client_id = ''acme'',
             stat_total_impressions = None, unique_devices = None\<rparr>,
            \<lparr>campaign_id = ''k4'', client_id = ''acme'',
             stat_total_impressions = Some 4, unique_devices = Some 1\<rparr>])
        ''acme'' = 7"
    using client_total_is_sum_over_own_campaigns
      [where c = "''acme''"
         and rows = "[\<lparr>campaign_id = ''k1'', client_id = ''acme'',
             stat_total_impressions = Some 3, unique_devices = Some 1\<rparr>,
            \<lparr>campaign_id = ''k2'', client_id = ''other'',
             stat_total_impressions = Some 5, unique_devices = Some 2\<rparr>,
            \<lparr>campaign_id = ''k3'', client_id = ''acme'',
             stat_total_impressions = None, unique_devices = None\<rparr>,
            \<lparr>campaign_id = ''k4'', client_id = ''acme'',
             stat_total_impressions = Some 4, unique_devices = Some 1\<rparr>]",
       OF id_ok, THEN conjunct1]
      small
    by simp
  with id_ok small show ?thesis by blast
qed

text \<open>
  The other limit: past \<open>2 ^ 53\<close> the running sum is rounded. Rows of \<open>2 ^ 53\<close> and 1
  impressions add up, on the page, to \<open>2 ^ 53\<close>.
\<close>

lemma sum_past_2_53_is_rounded:
  "client_impressions
     (build_statsMap
        [\<lparr>campaign_id = ''k1'', client_id = ''acme'',
          stat_total_impressions = Some 9007199254740992, unique_devices = Some 1\<rparr>,
         \<lparr>campaign_id = ''k2'', client_id = ''acme'',
          stat_total_impressions = Some 1, unique_devices = Some 1\<rparr>])
     ''acme'' = 9007199254740992
   \<and> spec_client_total
        [\<lparr>campaign_id = ''k1'', client_id = ''acme'',
          stat_total_impressions = Some 9007199254740992, unique_devices = Some 1\<rparr>,
         \<lparr>campaign_id = ''k2'', client_id = ''acme'',
          stat_total_impressions = Some 1, unique_devices = Some 1\<rparr>]
        ''acme'' = 9007199254740993"
  by (simp add: build_statsMap_def statsMap_add_def statsMap_get_def client_impressions_def
      Object_prototype_properties_def Let_def js_plus_count_def round_binary64_def
      round_significand_def round_half_even_def bit_length.simps spec_client_total_def
      row_total_def)

subsection \<open>Campaign lifecycle requests\<close>

lemma status_button_request_cases:
  "status_button_request c = ''PAUSED'' \<or> status_button_request c = ''ACTIVE''"
  by (simp add: status_button_request_def)

lemma toLowerCase_ACTIVE: "toLowerCase ''ACTIVE'' = ''active''"
  by (simp add: toLowerCase_def toLowerCase_char_def)

lemma toLowerCase_SCHEDULED: "toLowerCase ''SCHEDULED'' \<noteq> ''active''"
  by (simp add: toLowerCase_def toLowerCase_char_def)

lemma toLowerCase_PAUSED: "toLowerCase ''PAUSED'' \<noteq> ''active''"
  by (simp add: toLowerCase_def toLowerCase_char_def)

lemma toLowerCase_COMPLETED: "toLowerCase ''COMPLETED'' \<noteq> ''active''"
  by (simp add: toLowerCase_def toLowerCase_char_def)

text \<open>
  C3, as stated, fails on the code: the card of a COMPLETED campaign shows the Activate
  button, and clicking it sends \<open>new_status = ACTIVE\<close>, a transition out of COMPLETED
  that the lifecycle does not have.
\<close>

theorem completed_campaign_is_asked_to_activate:
  "requests
     (click_status_button True
        \<lparr>adFormData = \<lparr>ad_file = None, duration = 30\<rparr>, selectedCampaign = None,
         isUploading = False, uploadProgress = 0, toasts = [], requests = []\<rparr>
        \<lparr>campaign_ident = ''c1'', campaign_name = ''Summer Sale 2026'',
         campaign_status = Some ''COMPLETED''\<rparr>)
     ! 0
   = \<lparr>http_method = ''PUT'', http_path = ''/campaigns/c1/status'',
      http_params = [(''new_status'', PString ''ACTIVE'')], http_upload = None\<rparr>
   \<and> \<not> spec_lifecycle_transition ''COMPLETED''
        (status_button_request
           \<lparr>campaign_ident = ''c1'', campaign_name = ''Summer Sale 2026'',
            campaign_status = Some ''COMPLETED''\<rparr>)"
  by (simp add: click_status_button_def handleStatusChange_def status_button_request_def
      toLowerCase_COMPLETED campaignAPI_updateStatus_def spec_lifecycle_transition_def Let_def)

text \<open>
  C3, amended. A click on a campaign's status button sends exactly one status request,
  for that campaign, and the status it asks for is PAUSED exactly when the campaign's
  status is ACTIVE (compared case-insensitively) and ACTIVE for every other status, a
  missing one included. So from SCHEDULED or PAUSED the request is the lifecycle's
  activate, from ACTIVE it is the lifecycle's pause, activate is never requested for an
  ACTIVE campaign nor pause for any other, and SCHEDULED and COMPLETED are never asked
  for; from COMPLETED the request is ACTIVE.
\<close>

theorem status_button_requests:
  "(status_button_request c = ''PAUSED''
      \<longleftrightarrow> map_option toLowerCase (campaign_status c) = Some ''active'')
   \<and> (status_button_request c = ''ACTIVE''
      \<longleftrightarrow> map_option toLowerCase (campaign_status c) \<noteq> Some ''active'')
   \<and> (campaign_status c \<in> {Some ''SCHEDULED'', Some ''PAUSED'', Some ''ACTIVE''}
      \<longrightarrow> spec_lifecycle_transition (the (campaign_status c)) (status_button_request c))
   \<and> (campaign_status c = Some ''COMPLETED'' \<longrightarrow> status_button_request c = ''ACTIVE'')
   \<and> (campaign_status c = None \<longrightarrow> status_button_request c = ''ACTIVE'')
   \<and> requests (click_status_button api_ok st c)
      = requests st
        @ [campaignAPI_updateStatus (campaign_ident c) (status_button_request c)]
        @ (if api_ok then loadData_requests else [])"
proof -
  have cases: "status_button_request c = ''PAUSED''
      \<longleftrightarrow> map_option toLowerCase (campaign_status c) = Some ''active''"
    by (simp add: status_button_request_def)
  have life: "spec_lifecycle_transition (the (campaign_status c)) (status_button_request c)"
    if "campaign_status c \<in> {Some ''SCHEDULED'', Some ''PAUSED'', Some ''ACTIVE''}"
    using that toLowerCase_ACTIVE toLowerCase_SCHEDULED toLowerCase_PAUSED
    by (auto simp: status_button_request_def spec_lifecycle_transition_def)
  have completed: "status_button_request c = ''ACTIVE''" if "campaign_status c = Some ''COMPLETED''"
    using that toLowerCase_COMPLETED by (simp add: status_button_request_def)
  have log: "requests (click_status_button api_ok st c)
      = requests st
        @ [campaignAPI_updateStatus (campaign_ident c) (status_button_request c)]
        @ (if api_ok then loadData_requests else [])"
    by (simp add: click_status_button_def handleStatusChange_def Let_def)
  show ?thesis
    using cases life completed log status_button_request_cases[of c]
    by (auto simp: status_button_request_def)
qed

theorem status_button_requests_witness:
  "Some ''PAUSED'' \<in> {Some ''SCHEDULED'', Some ''PAUSED'', Some ''ACTIVE''}
   \<and> spec_lifecycle_transition ''PAUSED''
        (status_button_request
           \<lparr>campaign_ident = ''c1'', campaign_name = ''Summer Sale 2026'',
            campaign_status = Some ''PAUSED''\<rparr>)
   \<and> status_button_request
        \<lparr>campaign_ident = ''c1'', campaign_name = ''Summer Sale 2026'',
         campaign_status = Some ''PAUSED''\<rparr> = ''ACTIVE''"
  using status_button_requests
    [where c = "\<lparr>campaign_ident = ''c1'', campaign_name = ''Summer Sale 2026'',
                  campaign_status = Some ''PAUSED''\<rparr>"
       and api_ok = True
       and st = "\<lparr>adFormData = \<lparr>ad_file = None, duration = 30\<rparr>, selectedCampaign = None,
                   isUploading = False, uploadProgress = 0, toasts = [], requests = []\<rparr>"]
    toLowerCase_PAUSED
  by auto

subsection \<open>Ad file selection\<close>

text \<open>
  C8. A selected file whose MIME type does not start with \<open>video/\<close>, or whose size is
  above 100 MB, is rejected by \<open>handleFileSelect\<close> with an error toast; the handler
  sends no request and leaves the pending upload form, with the file selected before,
  as it was. If no file was pending, an upload attempt after the rejection sends no
  request either.
\<close>

theorem bad_file_is_rejected_before_any_request:
  assumes "\<not> startsWith (file_type f) ''video/'' \<or> 100 * 1024 * 1024 < file_size f"
  shows "toasts (handleFileSelect st (f # fs))
           = toasts st @ [Toast_error (if \<not> startsWith (file_type f) ''video/''
                                       then ''Please select a video file''
                                       else ''File size must be less than 100MB'')]
         \<and> requests (handleFileSelect st (f # fs)) = requests st
         \<and> adFormData (handleFileSelect st (f # fs)) = adFormData st
         \<and> selectedCampaign (handleFileSelect st (f # fs)) = selectedCampaign st
         \<and> (ad_file (adFormData st) = None
              \<longrightarrow> requests (handleUploadAd api_ok (handleFileSelect st (f # fs))) = requests st)"
  using assms by (auto simp: handleFileSelect_def handleUploadAd_def)

theorem bad_file_is_rejected_before_any_request_witness:
  "\<not> startsWith ''application/pdf'' ''video/''
   \<and> toasts
        (handleFileSelect
           \<lparr>adFormData = \<lparr>ad_file = None, duration = 30\<rparr>, selectedCampaign = None,
            isUploading = False, uploadProgress = 0, toasts = [], requests = []\<rparr>
           [\<lparr>file_name = ''brief.pdf'', file_type = ''application/pdf'', file_size = 2048\<rparr>])
      = [Toast_error ''Please select a video file'']
   \<and> requests
        (handleUploadAd True
           (handleFileSelect
              \<lparr>adFormData = \<lparr>ad_file = None, duration = 30\<rparr>, selectedCampaign = None,
               isUploading = False, uploadProgress = 0, toasts = [], requests = []\<rparr>
              [\<lparr>file_name = ''brief.pdf'', file_type = ''application/pdf'', file_size = 2048\<rparr>]))
      = []"
  using bad_file_is_rejected_before_any_request
    [where f = "\<lparr>file_name = ''brief.pdf'', file_type = ''application/pdf'', file_size = 2048\<rparr>"
       and fs = "[]" and api_ok = True
       and st = "\<lparr>adFormData = \<lparr>ad_file = None, duration = 30\<rparr>, selectedCampaign = None,
                   isUploading = False, uploadProgress = 0, toasts = [], requests = []\<rparr>"]
  by (simp add: startsWith_def)

text \<open>A video of at most 100 MB becomes the pending file, and uploading it is one request.\<close>

lemma good_file_is_selected:
  "startsWith (file_type f) ''video/'' \<Longrightarrow> file_size f \<le> 100 * 1024 * 1024 \<Longrightarrow>
   handleFileSelect st (f # fs) = st\<lparr>adFormData := (adFormData st)\<lparr>ad_file := Some f\<rparr>\<rparr>"
  by (simp add: handleFileSelect_def)

subsection \<open>Device status\<close>

text \<open>
  C6. The classification is online if \<open>now - last_seen <= T\<close> and offline otherwise;
  a device never seen is offline, one last seen \<open>T + 1\<close> seconds ago is offline, and one
  last seen \<open>T - 1\<close> seconds ago is online.
\<close>

theorem sweep_status_threshold:
  "sweep_status T now (Some t) = (if now - t \<le> T then online else offline)
   \<and> sweep_status T now None = offline
   \<and> sweep_status T now (Some (now - T - 1)) = offline
   \<and> sweep_status T now (Some (now - T + 1)) = online"
  by (simp add: sweep_status_def)

subsection \<open>Protected routes\<close>

lemma ProtectedRoute_admin_only_customer:
  "userRole a = J_Str ''customer'' \<Longrightarrow> ProtectedRoute a [''admin''] p \<noteq> Render q"
  by (simp add: ProtectedRoute_def)

text \<open>
  C9. Once the session has loaded, a protected route redirects to \<open>/login\<close> when there
  is no user, to \<open>/unauthorized\<close> when \<open>requiredRoles\<close> is non-empty and does not
  contain the user's role, and renders the page otherwise. The routes \<open>/devices\<close>,
  \<open>/drivers\<close> and \<open>/clients\<close> never render their page for the role \<open>customer\<close>;
  the routes without required roles render for any authenticated user, whatever the role.
\<close>

theorem protected_route_outcomes:
  "(\<not> loading a \<and> user a = None
      \<longrightarrow> ProtectedRoute a requiredRoles p = Navigate ''/login'')
   \<and> (\<not> loading a \<and> user a \<noteq> None \<and> requiredRoles \<noteq> []
        \<and> \<not> includes_role requiredRoles (userRole a)
      \<longrightarrow> ProtectedRoute a requiredRoles p = Navigate ''/unauthorized'')
   \<and> (\<not> loading a \<and> user a \<noteq> None
        \<and> (requiredRoles = [] \<or> includes_role requiredRoles (userRole a))
      \<longrightarrow> ProtectedRoute a requiredRoles p = Render p)
   \<and> (userRole a = J_Str ''customer''
      \<longrightarrow> App_route a ''/devices'' \<noteq> Some (Render q)
        \<and> App_route a ''/drivers'' \<noteq> Some (Render q)
        \<and> App_route a ''/clients'' \<noteq> Some (Render q))
   \<and> (\<not> loading a \<and> user a \<noteq> None \<and> userRole a = J_Str ''customer''
      \<longrightarrow> App_route a ''/devices'' = Some (Navigate ''/unauthorized'')
        \<and> App_route a ''/drivers'' = Some (Navigate ''/unauthorized'')
        \<and> App_route a ''/clients'' = Some (Navigate ''/unauthorized''))
   \<and> (\<not> loading a \<and> user a \<noteq> None
      \<longrightarrow> App_route a ''/dashboard'' = Some (Render DashboardPage)
        \<and> App_route a ''/campaigns'' = Some (Render CampaignsPage)
        \<and> App_route a ''/analytics'' = Some (Render AnalyticsPage))"
proof -
  have route: "App_route a ''/devices'' = Some (ProtectedRoute a [''admin''] DevicesPage)"
    "App_route a ''/drivers'' = Some (ProtectedRoute a [''admin''] DriversPage)"
    "App_route a ''/clients'' = Some (ProtectedRoute a [''admin''] ClientsPage)"
    "App_route a ''/dashboard'' = Some (ProtectedRoute a [] DashboardPage)"
    "App_route a ''/campaigns'' = Some (ProtectedRoute a [] CampaignsPage)"
    "App_route a ''/analytics'' = Some (ProtectedRoute a [] AnalyticsPage)"
    by (simp_all add: App_route_def)
  have gate: "\<not> loading a \<and> user a = None
      \<longrightarrow> ProtectedRoute a requiredRoles p = Navigate ''/login''"
    "\<not> loading a \<and> user a \<noteq> None \<and> requiredRoles \<noteq> []
        \<and> \<not> includes_role requiredRoles (userRole a)
      \<longrightarrow> ProtectedRoute a requiredRoles p = Navigate ''/unauthorized''"
    "\<not> loading a \<and> user a \<noteq> None
        \<and> (requiredRoles = [] \<or> includes_role requiredRoles (userRole a))
      \<longrightarrow> ProtectedRoute a requiredRoles p = Render p"
    by (auto simp: ProtectedRoute_def)
  have customer: "userRole a = J_Str ''customer''
      \<longrightarrow> App_route a ''/devices'' \<noteq> Some (Render q)
        \<and> App_route a ''/drivers'' \<noteq> Some (Render q)
        \<and> App_route a ''/clients'' \<noteq> Some (Render q)"
    by (simp add: route ProtectedRoute_admin_only_customer)
  have customer': "\<not> loading a \<and> user a \<noteq> None \<and> userRole a = J_Str ''customer''
      \<longrightarrow> App_route a ''/devices'' = Some (Navigate ''/unauthorized'')
        \<and> App_route a ''/drivers'' = Some (Navigate ''/unauthorized'')
        \<and> App_route a ''/clients'' = Some (Navigate ''/unauthorized'')"
    by (simp add: route ProtectedRoute_def)
  have anyone: "\<not> loading a \<and> user a \<noteq> None
      \<longrightarrow> App_route a ''/dashboard'' = Some (Render DashboardPage)
        \<and> App_route a ''/campaigns'' = Some (Render CampaignsPage)
        \<and> App_route a ''/analytics'' = Some (Render AnalyticsPage)"
    by (simp add: route ProtectedRoute_def)
  from gate customer customer' anyone show ?thesis by blast
qed

theorem protected_route_outcomes_witness:
  "\<not> loading \<lparr>session = None, user = Some ''u1'', loading = False, userRole = J_Str ''customer''\<rparr>
   \<and> user \<lparr>session = None, user = Some ''u1'', loading = False, userRole = J_Str ''customer''\<rparr> \<noteq> None
   \<and> [''admin''] \<noteq> []
   \<and> \<not> includes_role [''admin'']
         (userRole \<lparr>session = None, user = Some ''u1'', loading = False,
                    userRole = J_Str ''customer''\<rparr>)
   \<and> ProtectedRoute
        \<lparr>session = None, user = Some ''u1'', loading = False, userRole = J_Str ''customer''\<rparr>
        [''admin''] DevicesPage
      = Navigate ''/unauthorized''
   \<and> App_route
        \<lparr>session = None, user = Some ''u1'', loading = False, userRole = J_Str ''customer''\<rparr>
        ''/dashboard''
      = Some (Render DashboardPage)"
  using protected_route_outcomes
    [where a = "\<lparr>session = None, user = Some ''u1'', loading = False,
                  userRole = J_Str ''customer''\<rparr>"
       and requiredRoles = "[''admin'']" and p = DevicesPage and q = DevicesPage]
  by auto

text \<open>An admin reaches the admin-only pages.\<close>

lemma admin_reaches_admin_routes:
  "\<not> loading a \<Longrightarrow> user a \<noteq> None \<Longrightarrow> userRole a = J_Str ''admin'' \<Longrightarrow>
   App_route a ''/devices'' = Some (Render DevicesPage)
   \<and> App_route a ''/drivers'' = Some (Render DriversPage)
   \<and> App_route a ''/clients'' = Some (Render ClientsPage)"
  by (simp add: App_route_def ProtectedRoute_def)

subsection \<open>Role derivation\<close>



lemma role_of_token_admin:
  assumes "role_of_token decode t = J_Str ''admin''"
  shows "\<exists>kvs. decode (payload_segment t) = Some (J_Obj kvs)
               \<and> map_of kvs ''user_role'' = Some (J_Str ''admin'')"
proof (cases "decode (payload_segment t)")
  case None
  with assms show ?thesis by (simp add: role_of_token_def)
next
  case (Some payload)
  with assms show ?thesis
    by (cases payload) (auto simp: role_of_token_def split: option.splits if_splits)
qed




text \<open>
  Over any order of the two handlers from the initial state: the role is \<open>admin\<close> only
  if one of the sessions handed over carried an \<open>admin\<close> claim.
\<close>

lemma role_of_token_carries_admin:
  assumes "truthy_access_token s = Some t" and "role_of_token decode t = J_Str ''admin''"
  shows "carries_admin decode s"
proof -
  from role_of_token_admin[OF assms(2)] obtain kvs
    where "decode (payload_segment t) = Some (J_Obj kvs)"
      and "map_of kvs ''user_role'' = Some (J_Str ''admin'')"
    by blast
  with assms(1) show ?thesis by (simp add: carries_admin_def)
qed

lemma auth_step_admin:
  assumes "userRole (auth_step decode st ev) = J_Str ''admin''"
  shows "carries_admin decode (event_session ev) \<or> userRole st = J_Str ''admin''"
proof (cases "truthy_access_token (event_session ev)")
  case None
  with assms show ?thesis
    by (cases ev) (simp_all add: getSession_then_def onAuthStateChange_def)
next
  case (Some t)
  with assms have "role_of_token decode t = J_Str ''admin''"
    by (cases ev) (simp_all add: getSession_then_def onAuthStateChange_def)
  with Some show ?thesis by (simp add: role_of_token_carries_admin)
qed

lemma admin_role_needs_admin_claim:
  "userRole (foldl (auth_step decode) initial_auth evs) = J_Str ''admin'' \<Longrightarrow>
   \<exists>ev \<in> set evs. carries_admin decode (event_session ev)"
proof (induction evs rule: rev_induct)
  case Nil
  then show ?case by (simp add: initial_auth_def)
next
  case (snoc ev evs)
  then show ?case using auth_step_admin[of decode "foldl (auth_step decode) initial_auth evs" ev]
    by auto
qed

text \<open>
  Handed no token, the two handlers part: the listener resets the role, the continuation
  of \<open>getSession\<close> leaves it as it finds it. From the initial state that is still
  \<open>null\<close>.
\<close>

lemma handlers_without_token:
  "truthy_access_token s = None \<Longrightarrow>
   userRole (onAuthStateChange decode st s) = J_Null
   \<and> userRole (getSession_then decode st s) = userRole st
   \<and> userRole (getSession_then decode initial_auth s) = J_Null"
  by (simp add: onAuthStateChange_def getSession_then_def initial_auth_def)

subsection \<open>CSV export\<close>

lemma foldl_parser_quoted:
  "foldl parser_step \<lparr>mode = Quoted, cur_field = f, cur_row = r, done_rows = ds\<rparr> (replace_quotes s)
     = \<lparr>mode = Quoted, cur_field = f @ s, cur_row = r, done_rows = ds\<rparr>"
  by (induction s arbitrary: f) (simp_all add: parser_step_def push_char_def)

lemma foldl_parser_plain:
  "plain_text s \<Longrightarrow>
   foldl parser_step \<lparr>mode = Unquoted, cur_field = f, cur_row = r, done_rows = ds\<rparr> s
     = \<lparr>mode = Unquoted, cur_field = f @ s, cur_row = r, done_rows = ds\<rparr>"
  by (induction s arbitrary: f)
    (auto simp: plain_text_def parser_step_def unquoted_step_def push_char_def)

lemma parser_cell:
  assumes "carried v"
  shows "\<exists>m. cell_end m \<and> (m = QuoteSeen \<or> join_text (csv_cell v) = join_text v) \<and>
     foldl parser_step \<lparr>mode = Unquoted, cur_field = [], cur_row = r, done_rows = ds\<rparr>
       (join_text (csv_cell v))
     = \<lparr>mode = m, cur_field = join_text v, cur_row = r, done_rows = ds\<rparr>"
proof (cases v)
  case (JString s)
  show ?thesis
  proof (cases "includes_char s comma \<or> includes_char s dquote")
    case True
    have "foldl parser_step \<lparr>mode = Unquoted, cur_field = [], cur_row = r, done_rows = ds\<rparr>
            (join_text (csv_cell v))
          = \<lparr>mode = QuoteSeen, cur_field = s, cur_row = r, done_rows = ds\<rparr>"
      using True JString
      by (simp add: csv_cell_def parser_step_def unquoted_step_def foldl_parser_quoted)
    then show ?thesis using JString by (auto simp: cell_end_def)
  next
    case False
    then have "plain_text s" using assms JString by (simp add: plain_text_def includes_char_def)
    then show ?thesis using False JString
      by (auto simp: csv_cell_def foldl_parser_plain cell_end_def)
  qed
next
  case JUndefined
  then show ?thesis by (auto simp: csv_cell_def cell_end_def)
next
  case JNull
  then show ?thesis by (auto simp: csv_cell_def cell_end_def)
next
  case (JOther t)
  then show ?thesis using assms by (auto simp: csv_cell_def foldl_parser_plain cell_end_def)
qed

lemma parser_comma:
  "cell_end m \<Longrightarrow>
   parser_step \<lparr>mode = m, cur_field = f, cur_row = r, done_rows = ds\<rparr> comma
     = \<lparr>mode = Unquoted, cur_field = [], cur_row = r @ [f], done_rows = ds\<rparr>"
  by (auto simp: cell_end_def parser_step_def unquoted_step_def end_field_def)

lemma parser_LF:
  "cell_end m \<Longrightarrow>
   parser_step \<lparr>mode = m, cur_field = f, cur_row = r, done_rows = ds\<rparr> LF
     = \<lparr>mode = Unquoted, cur_field = [], cur_row = [], done_rows = ds @ [r @ [f]]\<rparr>"
  by (auto simp: cell_end_def parser_step_def unquoted_step_def end_record_def)

lemma parser_row:
  assumes "vs \<noteq> []" and "\<forall>v \<in> set vs. carried v"
  shows "\<exists>m. cell_end m
     \<and> (row_text vs \<noteq> [] \<longrightarrow> m = QuoteSeen \<or> join_text (last vs) \<noteq> [] \<or> butlast vs \<noteq> [])
     \<and> foldl parser_step \<lparr>mode = Unquoted, cur_field = [], cur_row = r, done_rows = ds\<rparr>
          (row_text vs)
       = \<lparr>mode = m, cur_field = join_text (last vs), cur_row = r @ map join_text (butlast vs),
          done_rows = ds\<rparr>"
  using assms
proof (induction vs arbitrary: r)
  case Nil
  then show ?case by simp
next
  case (Cons v vs)
  from Cons.prems obtain m where m: "cell_end m"
    "m = QuoteSeen \<or> join_text (csv_cell v) = join_text v"
    "foldl parser_step \<lparr>mode = Unquoted, cur_field = [], cur_row = r, done_rows = ds\<rparr>
       (join_text (csv_cell v))
     = \<lparr>mode = m, cur_field = join_text v, cur_row = r, done_rows = ds\<rparr>"
    using parser_cell[of v r ds] by auto
  show ?case
  proof (cases vs)
    case Nil
    with m show ?thesis by (auto simp: row_text_def)
  next
    case (Cons w ws)
    then have "vs \<noteq> []" by simp
    with Cons.IH[of "r @ [join_text v]"] Cons.prems obtain m' where m': "cell_end m'"
      "foldl parser_step
         \<lparr>mode = Unquoted, cur_field = [], cur_row = r @ [join_text v], done_rows = ds\<rparr>
         (row_text vs)
       = \<lparr>mode = m', cur_field = join_text (last vs),
          cur_row = (r @ [join_text v]) @ map join_text (butlast vs), done_rows = ds\<rparr>"
      by auto
    have "row_text (v # vs) = join_text (csv_cell v) @ [comma] @ row_text vs"
      using Cons by (simp add: row_text_def)
    then show ?thesis
      using m m' \<open>vs \<noteq> []\<close> by (auto simp: parser_comma)
  qed
qed

lemma parser_rows:
  assumes "rs \<noteq> []"
    and "\<forall>vs \<in> set rs. vs \<noteq> [] \<and> row_text vs \<noteq> [] \<and> (\<forall>v \<in> set vs. carried v)"
  shows "parser_finish
           (foldl parser_step \<lparr>mode = Unquoted, cur_field = [], cur_row = [], done_rows = ds\<rparr>
              (join [LF] (map row_text rs)))
         = ds @ map (map join_text) rs"
  using assms
proof (induction rs arbitrary: ds)
  case Nil
  then show ?case by simp
next
  case (Cons vs rs)
  from Cons.prems have vs: "vs \<noteq> []" "\<forall>v \<in> set vs. carried v" and text_ne: "row_text vs \<noteq> []"
    by auto
  from parser_row[OF vs, of "[]" ds] text_ne obtain m where m: "cell_end m"
    "m = QuoteSeen \<or> join_text (last vs) \<noteq> [] \<or> butlast vs \<noteq> []"
    "foldl parser_step \<lparr>mode = Unquoted, cur_field = [], cur_row = [], done_rows = ds\<rparr> (row_text vs)
     = \<lparr>mode = m, cur_field = join_text (last vs), cur_row = map join_text (butlast vs),
        done_rows = ds\<rparr>"
    by auto
  have whole: "map join_text (butlast vs) @ [join_text (last vs)] = map join_text vs"
    using vs(1) by (metis append_butlast_last_id list.simps(8,9) map_append)
  show ?case
  proof (cases rs)
    case Nil
    have "\<not> at_record_start
            \<lparr>mode = m, cur_field = join_text (last vs), cur_row = map join_text (butlast vs),
             done_rows = ds\<rparr>"
      using m(2) by (auto simp: at_record_start_def)
    with Nil m whole show ?thesis by (simp add: parser_finish_def)
  next
    case (Cons ws rs')
    then have ne: "rs \<noteq> []" by simp
    have "join [LF] (map row_text (vs # rs)) = row_text vs @ [LF] @ join [LF] (map row_text rs)"
      using Cons by simp
    moreover have "parser_finish
           (foldl parser_step
              \<lparr>mode = Unquoted, cur_field = [], cur_row = [], done_rows = ds @ [map join_text vs]\<rparr>
              (join [LF] (map row_text rs)))
         = (ds @ [map join_text vs]) @ map (map join_text) rs"
      using Cons.IH[OF ne] Cons.prems by simp
    ultimately show ?thesis using m whole by (simp add: parser_LF)
  qed
qed

lemma csv_cell_nonempty: "join_text v \<noteq> [] \<Longrightarrow> join_text (csv_cell v) \<noteq> []"
  by (cases v) (simp_all add: csv_cell_def)

lemma row_text_nonempty:
  assumes "vs \<noteq> []" and "2 \<le> length vs \<or> (\<forall>v \<in> set vs. join_text v \<noteq> [])"
  shows "row_text vs \<noteq> []"
proof (cases vs)
  case Nil
  with assms(1) show ?thesis by simp
next
  case (Cons v ws)
  show ?thesis
  proof (cases ws)
    case Nil
    with Cons assms(2) show ?thesis by (simp add: row_text_def csv_cell_nonempty)
  next
    case (Cons w ws')
    with \<open>vs = v # ws\<close> show ?thesis by (simp add: row_text_def)
  qed
qed

lemma replace_quotes_concat:
  "replace_quotes s = concat (map (\<lambda>c. if c = dquote then [dquote, dquote] else [c]) s)"
  by (induction s) simp_all

lemma csv_cell_spec: "join_text (csv_cell v) = spec_cell v"
  by (cases v) (simp_all add: csv_cell_def spec_cell_def includes_char_def replace_quotes_concat)

lemma convertToCSV_nonempty:
  "d \<noteq> [] \<Longrightarrow>
   convertToCSV (Some d) csv_fields =
     join [LF] (join [comma] (map label csv_fields)
                # map (\<lambda>item. row_text (map (\<lambda>f. item_get item (key f)) csv_fields)) d)"
  by (simp add: convertToCSV_def row_text_def comp_def)

text \<open>
  C5, as stated, fails on the code for the empty sequence of records: the export is then
  the empty string, not the header row.
\<close>

theorem no_records_no_header:
  "convertToCSV (Some []) [\<lparr>key = ''id'', label = ''Impression ID''\<rparr>] = []
   \<and> join [LF] (spec_csv_lines [] [\<lparr>key = ''id'', label = ''Impression ID''\<rparr>])
       = ''Impression ID''"
  by (simp add: convertToCSV_def spec_csv_lines_def)

text \<open>
  C5, amended. For every list of field selectors and every non-empty sequence of records,
  the export is the header row of the labels followed by one row per record, rows joined
  by line feeds and cells by commas, where a string value containing a comma or a quote
  is wrapped in quotes with its quotes doubled and every other value is emitted as it is
  (\<open>null\<close> and \<open>undefined\<close> as the empty string). For an empty or missing sequence of
  records the export is the empty string, without a header row.
\<close>

theorem export_is_header_and_one_row_per_record:
  "(d \<noteq> [] \<longrightarrow> convertToCSV (Some d) csv_fields = join [LF] (spec_csv_lines d csv_fields))
   \<and> length (spec_csv_lines d csv_fields) = Suc (length d)
   \<and> convertToCSV (Some []) csv_fields = []
   \<and> convertToCSV None csv_fields = []"
  by (simp add: convertToCSV_def spec_csv_lines_def csv_cell_spec)

theorem export_is_header_and_one_row_per_record_witness:
  "[[''id'' \<mapsto> JString ''a,b'', ''n'' \<mapsto> JOther ''7'']] \<noteq> []
   \<and> convertToCSV (Some [[''id'' \<mapsto> JString ''a,b'', ''n'' \<mapsto> JOther ''7'']])
        [\<lparr>key = ''id'', label = ''Id''\<rparr>, \<lparr>key = ''n'', label = ''Count''\<rparr>,
         \<lparr>key = ''missing'', label = ''Other''\<rparr>]
      = ''Id,Count,Other'' @ [LF] @ [dquote] @ ''a,b'' @ [dquote] @ '',7,''"
  using export_is_header_and_one_row_per_record
    [where d = "[[''id'' \<mapsto> JString ''a,b'', ''n'' \<mapsto> JOther ''7'']]"
       and csv_fields = "[\<lparr>key = ''id'', label = ''Id''\<rparr>, \<lparr>key = ''n'', label = ''Count''\<rparr>,
                          \<lparr>key = ''missing'', label = ''Other''\<rparr>]"]
  by (simp add: spec_csv_lines_def spec_cell_def item_get_def)

text \<open>
  C4, as stated, fails on the code: a line break inside a value is exported unquoted, and
  the parser reads two records where there was one.
\<close>

theorem line_break_in_value_splits_the_record:
  "tl (parse_csv
         (convertToCSV (Some [[''note'' \<mapsto> JString [CHR ''a'', LF, CHR ''b'']]])
            [\<lparr>key = ''note'', label = ''Note''\<rparr>]))
     = [[''a''], [''b'']]
   \<and> tl (parse_csv
         (convertToCSV (Some [[''note'' \<mapsto> JString [CHR ''a'', LF, CHR ''b'']]])
            [\<lparr>key = ''note'', label = ''Note''\<rparr>]))
     \<noteq> [[[CHR ''a'', LF, CHR ''b'']]]"
  by (simp add: convertToCSV_def item_get_def csv_cell_def includes_char_def parse_csv_def
      parser_init_def parser_step_def unquoted_step_def push_char_def end_record_def
      end_field_def parser_finish_def at_record_start_def)

text \<open>
  C4, amended. For every non-empty list of field selectors whose labels contain no comma,
  quote or line break, and every non-empty list of records whose selected values are
  strings without a line break (CR or LF), commas and quotes allowed, such that no
  exported line is empty (there are two or more field selectors, or the one label and
  every selected value are non-empty), parsing the export gives back the labels as the
  header and, record by record and field by field, the original values. A selected value
  that is \<open>null\<close> or \<open>undefined\<close> comes back as the empty string, and any other value
  as its rendering when that has no comma, quote or line break. For the empty list of
  records the export is the empty text, which reads back as no records.
\<close>

theorem csv_round_trip:
  assumes fields_nonempty: "csv_fields \<noteq> []"
    and labels: "\<forall>f \<in> set csv_fields. plain_text (label f)"
    and vals: "\<forall>item \<in> set d. \<forall>f \<in> set csv_fields. carried (item_get item (key f))"
    and no_empty_line:
      "2 \<le> length csv_fields
       \<or> ((\<forall>f \<in> set csv_fields. label f \<noteq> [])
          \<and> (\<forall>item \<in> set d. \<forall>f \<in> set csv_fields. join_text (item_get item (key f)) \<noteq> []))"
  shows "parse_csv (convertToCSV (Some d) csv_fields)
           = (if d = [] then []
              else map label csv_fields
                   # map (\<lambda>item. map (\<lambda>f. join_text (item_get item (key f))) csv_fields) d)"
proof (cases "d = []")
  case True
  then show ?thesis
    by (simp add: convertToCSV_def parse_csv_def parser_init_def parser_finish_def
        at_record_start_def)
next
  case False
  define header where "header = map (\<lambda>f. JString (label f)) csv_fields"
  define records where "records = map (\<lambda>item. map (\<lambda>f. item_get item (key f)) csv_fields) d"
  have cell: "join_text (csv_cell (JString (label f))) = label f" if "f \<in> set csv_fields" for f
    using labels that by (simp add: csv_cell_def plain_text_def includes_char_def)
  then have labels_text:
    "map (\<lambda>f. join_text (csv_cell (JString (label f)))) csv_fields = map label csv_fields"
    by (simp cong: map_cong)
  have header_text: "row_text header = join [comma] (map label csv_fields)"
    unfolding row_text_def header_def map_map comp_def by (simp only: labels_text)
  have exported: "convertToCSV (Some d) csv_fields = join [LF] (map row_text (header # records))"
    using False by (simp add: convertToCSV_nonempty header_text records_def comp_def)
  have shape: "\<forall>vs \<in> set (header # records). vs \<noteq> [] \<and> (\<forall>v \<in> set vs. carried v)"
    using fields_nonempty labels vals by (auto simp: header_def records_def plain_text_def)
  have lines: "\<forall>vs \<in> set (header # records).
                 2 \<le> length vs \<or> (\<forall>v \<in> set vs. join_text v \<noteq> [])"
    using no_empty_line by (auto simp: header_def records_def)
  have ok: "\<forall>vs \<in> set (header # records).
              vs \<noteq> [] \<and> row_text vs \<noteq> [] \<and> (\<forall>v \<in> set vs. carried v)"
  proof
    fix vs assume "vs \<in> set (header # records)"
    with shape lines have "vs \<noteq> []" "\<forall>v \<in> set vs. carried v"
      "2 \<le> length vs \<or> (\<forall>v \<in> set vs. join_text v \<noteq> [])"
      by blast+
    then show "vs \<noteq> [] \<and> row_text vs \<noteq> [] \<and> (\<forall>v \<in> set vs. carried v)"
      by (simp add: row_text_nonempty)
  qed
  have "parse_csv (convertToCSV (Some d) csv_fields) = map (map join_text) (header # records)"
    unfolding parse_csv_def parser_init_def exported
    using parser_rows[of "header # records" "[]", OF _ ok] by simp
  then show ?thesis
    using False by (simp add: header_def records_def comp_def)
qed

theorem csv_round_trip_witness:
  "[\<lparr>key = ''a'', label = ''A''\<rparr>, \<lparr>key = ''b'', label = ''B''\<rparr>, \<lparr>key = ''c'', label = ''C''\<rparr>] \<noteq> []
   \<and> plain_text ''A'' \<and> plain_text ''B'' \<and> plain_text ''C''
   \<and> carried (JString ''x,y'') \<and> carried (JString [CHR ''s'', dquote, CHR ''t''])
   \<and> carried (JString ''plain'')
   \<and> (2::nat) \<le> length [\<lparr>key = ''a'', label = ''A''\<rparr>, \<lparr>key = ''b'', label = ''B''\<rparr>,
                          \<lparr>key = ''c'', label = ''C''\<rparr>]
   \<and> convertToCSV
        (Some [[''a'' \<mapsto> JString ''x,y'', ''b'' \<mapsto> JString [CHR ''s'', dquote, CHR ''t''],
                ''c'' \<mapsto> JString ''plain'']])
        [\<lparr>key = ''a'', label = ''A''\<rparr>, \<lparr>key = ''b'', label = ''B''\<rparr>, \<lparr>key = ''c'', label = ''C''\<rparr>]
      = ''A,B,C'' @ [LF, dquote] @ ''x,y'' @ [dquote, comma, dquote] @ ''s''
          @ [dquote, dquote] @ ''t'' @ [dquote, comma] @ ''plain''
   \<and> parse_csv
        (convertToCSV
           (Some [[''a'' \<mapsto> JString ''x,y'', ''b'' \<mapsto> JString [CHR ''s'', dquote, CHR ''t''],
                   ''c'' \<mapsto> JString ''plain'']])
           [\<lparr>key = ''a'', label = ''A''\<rparr>, \<lparr>key = ''b'', label = ''B''\<rparr>,
            \<lparr>key = ''c'', label = ''C''\<rparr>])
      = [[''A'', ''B'', ''C''], [''x,y'', [CHR ''s'', dquote, CHR ''t''], ''plain'']]"
proof -
  have ne: "[\<lparr>key = ''a'', label = ''A''\<rparr>, \<lparr>key = ''b'', label = ''B''\<rparr>,
             \<lparr>key = ''c'', label = ''C''\<rparr>] \<noteq> []"
    by simp
  have pl: "plain_text ''A''" "plain_text ''B''" "plain_text ''C''"
    by (simp_all add: plain_text_def)
  have ca: "carried (JString ''x,y'')" "carried (JString [CHR ''s'', dquote, CHR ''t''])"
    "carried (JString ''plain'')"
    by simp_all
  have two: "(2::nat) \<le> length [\<lparr>key = ''a'', label = ''A''\<rparr>, \<lparr>key = ''b'', label = ''B''\<rparr>,
                                \<lparr>key = ''c'', label = ''C''\<rparr>]"
    by simp
  have out: "convertToCSV
        (Some [[''a'' \<mapsto> JString ''x,y'', ''b'' \<mapsto> JString [CHR ''s'', dquote, CHR ''t''],
                ''c'' \<mapsto> JString ''plain'']])
        [\<lparr>key = ''a'', label = ''A''\<rparr>, \<lparr>key = ''b'', label = ''B''\<rparr>, \<lparr>key = ''c'', label = ''C''\<rparr>]
      = ''A,B,C'' @ [LF, dquote] @ ''x,y'' @ [dquote, comma, dquote] @ ''s''
          @ [dquote, dquote] @ ''t'' @ [dquote, comma] @ ''plain''"
    by (simp add: convertToCSV_def item_get_def csv_cell_def includes_char_def)
  have "parse_csv
        (convertToCSV
           (Some [[''a'' \<mapsto> JString ''x,y'', ''b'' \<mapsto> JString [CHR ''s'', dquote, CHR ''t''],
                   ''c'' \<mapsto> JString ''plain'']])
           [\<lparr>key = ''a'', label = ''A''\<rparr>, \<lparr>key = ''b'', label = ''B''\<rparr>,
            \<lparr>key = ''c'', label = ''C''\<rparr>])
      = [[''A'', ''B'', ''C''], [''x,y'', [CHR ''s'', dquote, CHR ''t''], ''plain'']]"
    using csv_round_trip
      [where csv_fields = "[\<lparr>key = ''a'', label = ''A''\<rparr>, \<lparr>key = ''b'', label = ''B''\<rparr>,
                            \<lparr>key = ''c'', label = ''C''\<rparr>]"
         and d = "[[''a'' \<mapsto> JString ''x,y'', ''b'' \<mapsto> JString [CHR ''s'', dquote, CHR ''t''],
                    ''c'' \<mapsto> JString ''plain'']]"]
      pl
    by (simp add: item_get_def)
  with ne pl ca two out show ?thesis by blast
qed

text \<open>
  The other limits of the round trip. With one column, a last value that is empty leaves
  the export ending in a line break, and the last record is not read back; a label can
  break the header line; and without field selectors every exported row is an empty
  line.
\<close>

lemma empty_last_value_in_one_column_is_lost:
  "convertToCSV (Some [[''a'' \<mapsto> JString ''v''], [''a'' \<mapsto> JString []]])
     [\<lparr>key = ''a'', label = ''A''\<rparr>]
     = [CHR ''A'', LF, CHR ''v'', LF]
   \<and> parse_csv
        (convertToCSV (Some [[''a'' \<mapsto> JString ''v''], [''a'' \<mapsto> JString []]])
           [\<lparr>key = ''a'', label = ''A''\<rparr>])
     = [[''A''], [''v'']]"
  by (simp add: convertToCSV_def item_get_def csv_cell_def includes_char_def parse_csv_def
      parser_init_def parser_step_def unquoted_step_def push_char_def end_record_def
      end_field_def parser_finish_def at_record_start_def)

lemma label_with_line_break_shifts_the_rows:
  "parse_csv
     (convertToCSV (Some [[''note'' \<mapsto> JString ''x'']])
        [\<lparr>key = ''note'', label = [CHR ''N'', LF, CHR ''o'']\<rparr>])
     = [[''N''], [''o''], [''x'']]"
  by (simp add: convertToCSV_def item_get_def csv_cell_def includes_char_def parse_csv_def
      parser_init_def parser_step_def unquoted_step_def push_char_def end_record_def
      end_field_def parser_finish_def at_record_start_def)

lemma no_fields_reads_back_no_record_values:
  "convertToCSV (Some [[''note'' \<mapsto> JString ''x'']]) [] = [LF]
   \<and> parse_csv (convertToCSV (Some [[''note'' \<mapsto> JString ''x'']]) []) = [[[]]]"
  by (simp add: convertToCSV_def parse_csv_def parser_init_def parser_step_def
      unquoted_step_def end_record_def parser_finish_def at_record_start_def)

end
